theory Spec2Isabelle
  imports Main "HOL-Library.AList"
begin

section \<open>Strings and characters\<close>

text \<open>
  A Python \<open>str\<close> is a sequence of code points. The model is the type \<open>string\<close>, read as
  a sequence of code points below 256 (ASCII and Latin-1), one \<open>char\<close> each. The character
  classes below are the ones Python's \<open>str\<close> methods and the \<open>re\<close> module (on \<open>str\<close>
  patterns, so in Unicode mode) use, restricted to that range.
\<close>

definition ord :: "char \<Rightarrow> nat" where
  "ord c = of_char c"

text \<open>\<open>str.isspace\<close>, which is also the class \<open>\s\<close> of \<open>re\<close>: TAB, LF, VT, FF, CR, the
  separators FS, GS, RS, US, the space, NEL and the no-break space.\<close>

definition isspace :: "char \<Rightarrow> bool" where
  "isspace c = ((9 \<le> ord c \<and> ord c \<le> 13) \<or> (28 \<le> ord c \<and> ord c \<le> 32)
                 \<or> ord c = 133 \<or> ord c = 160)"

text \<open>The class \<open>\d\<close>: the decimal digits (below 256 these are \<open>0\<close> to \<open>9\<close>).\<close>

definition isdigit :: "char \<Rightarrow> bool" where
  "isdigit c = (48 \<le> ord c \<and> ord c \<le> 57)"

text \<open>The class \<open>\w\<close>: the underscore and every character for which \<open>str.isalnum\<close> holds.
  Below 256 these are the ASCII letters and digits, the Latin-1 letters (all of
  \<open>0xC0..0xFF\<close> but the multiplication and division signs), the ordinal indicators, the
  micro sign, the superscript digits and the vulgar fractions.\<close>

definition isword :: "char \<Rightarrow> bool" where
  "isword c = ((48 \<le> ord c \<and> ord c \<le> 57) \<or> (65 \<le> ord c \<and> ord c \<le> 90) \<or> ord c = 95
               \<or> (97 \<le> ord c \<and> ord c \<le> 122)
               \<or> ord c = 170 \<or> ord c = 178 \<or> ord c = 179 \<or> ord c = 181 \<or> ord c = 185
               \<or> ord c = 186 \<or> ord c = 188 \<or> ord c = 189 \<or> ord c = 190
               \<or> (192 \<le> ord c \<and> ord c \<le> 214) \<or> (216 \<le> ord c \<and> ord c \<le> 246)
               \<or> (248 \<le> ord c \<and> ord c \<le> 255))"

text \<open>The lower-case mapping \<open>re.IGNORECASE\<close> compares characters under: \<open>A..Z\<close> and the
  Latin-1 capitals move up by 32, every other character below 256 is its own image.\<close>

definition lower :: "char \<Rightarrow> char" where
  "lower c = (if (65 \<le> ord c \<and> ord c \<le> 90) \<or> (192 \<le> ord c \<and> ord c \<le> 214)
                 \<or> (216 \<le> ord c \<and> ord c \<le> 222)
              then char_of (ord c + 32) else c)"

text \<open>\<open>str.lstrip()\<close>, \<open>str.rstrip()\<close> and \<open>str.strip()\<close> with no argument remove the
  leading, the trailing, and both runs of white space.\<close>

definition lstrip :: "string \<Rightarrow> string" where
  "lstrip s = dropWhile isspace s"

definition rstrip :: "string \<Rightarrow> string" where
  "rstrip s = rev (dropWhile isspace (rev s))"

definition strip :: "string \<Rightarrow> string" where
  "strip s = rstrip (lstrip s)"

text \<open>\<open>str(n)\<close> for an integer: the decimal digits, after a minus sign when \<open>n < 0\<close>.\<close>

definition digit_char :: "nat \<Rightarrow> char" where
  "digit_char d = char_of (48 + d)"

fun str_nat :: "nat \<Rightarrow> string" where
  "str_nat n = (if n < 10 then [digit_char n] else str_nat (n div 10) @ [digit_char (n mod 10)])"

declare str_nat.simps [simp del]

definition str_int :: "int \<Rightarrow> string" where
  "str_int n = (if n < 0 then CHR ''-'' # str_nat (nat (- n)) else str_nat (nat n))"

section \<open>The regular expressions of the sanitizer\<close>

text \<open>
  The patterns of \<open>sql_sanitizer.py\<close> use literals, the classes \<open>\s\<close> and \<open>\d\<close> and a
  literal parenthesis under \<open>*\<close> and \<open>+\<close>, the word boundary \<open>\b\<close> and the anchor \<open>^\<close>.
  A pattern is the sequence of these items. Every pattern with a letter in it is used
  with \<open>re.IGNORECASE\<close>, so a literal is compared under \<open>lower\<close>; the semicolon and
  the parenthesis are their own lower case. The capturing group of \<open>SELECT_RE\<close> does
  not change what matches and is not represented.
\<close>

datatype atom =
    Lit char
  | Star "char \<Rightarrow> bool"
  | Plus "char \<Rightarrow> bool"
  | WordB
  | Bol

text \<open>A position in the subject is the character before it (\<open>None\<close> at the start) and
  the rest of the subject. \<open>\b\<close> holds where exactly one of the two neighbours is a word
  character, the start and the end counting as non-word.\<close>

fun word_before :: "char option \<Rightarrow> bool" where
  "word_before None = False"
| "word_before (Some c) = isword c"

fun word_after :: "string \<Rightarrow> bool" where
  "word_after [] = False"
| "word_after (c # cs) = isword c"

definition at_boundary :: "char option \<Rightarrow> string \<Rightarrow> bool" where
  "at_boundary p s = (word_before p \<noteq> word_after s)"

text \<open>\<open>matches pat p s\<close>: the pattern matches a prefix of \<open>s\<close>, where \<open>p\<close> is the
  character before \<open>s\<close>. The source uses only the truth value of \<open>search\<close> and
  \<open>match\<close>, so the matcher tries every number of repetitions and answers whether
  one of them succeeds, which is when the backtracking matcher of \<open>re\<close> finds a match.\<close>

fun matches :: "atom list \<Rightarrow> char option \<Rightarrow> string \<Rightarrow> bool" where
  "matches [] p s = True"
| "matches (Lit c # rs) p [] = False"
| "matches (Lit c # rs) p (x # xs) = (lower x = lower c \<and> matches rs (Some x) xs)"
| "matches (WordB # rs) p s = (at_boundary p s \<and> matches rs p s)"
| "matches (Bol # rs) p s = (p = None \<and> matches rs p s)"
| "matches (Star P # rs) p [] = matches rs p []"
| "matches (Star P # rs) p (x # xs) =
     (matches rs p (x # xs) \<or> (P x \<and> matches (Star P # rs) (Some x) xs))"
| "matches (Plus P # rs) p [] = False"
| "matches (Plus P # rs) p (x # xs) = (P x \<and> matches (Star P # rs) (Some x) xs)"

text \<open>\<open>re.match\<close> tries the pattern at the start of the subject only; \<open>re.search\<close>
  tries it at every position from left to right.\<close>

definition re_match :: "atom list \<Rightarrow> string \<Rightarrow> bool" where
  "re_match pat s = matches pat None s"

fun search_from :: "atom list \<Rightarrow> char option \<Rightarrow> string \<Rightarrow> bool" where
  "search_from pat p [] = matches pat p []"
| "search_from pat p (x # xs) = (matches pat p (x # xs) \<or> search_from pat (Some x) xs)"

definition re_search :: "atom list \<Rightarrow> string \<Rightarrow> bool" where
  "re_search pat s = search_from pat None s"

text \<open>The pattern \<open>\bW\b\<close> for a word \<open>W\<close>, and its source text, which is what
  \<open>BLOCKED_TOKENS\<close> holds and the error message prints.\<close>

definition word_re :: "string \<Rightarrow> atom list" where
  "word_re w = WordB # map Lit w @ [WordB]"

definition word_src :: "string \<Rightarrow> string" where
  "word_src w = [CHR 0x5C, CHR ''b''] @ w @ [CHR 0x5C, CHR ''b'']"

section \<open>sql\_sanitizer.py\<close>

definition BLOCKED_WORDS :: "string list" where
  "BLOCKED_WORDS =
     [''INSERT'', ''UPDATE'', ''DELETE'', ''DROP'',
      ''CREATE'', ''ALTER'', ''TRUNCATE'', ''REVOKE'',
      ''GRANT'', ''VACUUM'', ''ANALYZE'', ''LOCK'',
      ''SET'', ''SHOW'', ''COMMENT'']"

definition BLOCKED_TOKENS :: "string list" where
  "BLOCKED_TOKENS = map word_src BLOCKED_WORDS"

definition SYSTEM_TABLES :: "string list" where
  "SYSTEM_TABLES = [''pg_catalog'', ''information_schema'']"

definition SELECT_RE :: "atom list" where
  "SELECT_RE = [Bol, Star isspace, Star (\<lambda>c. c = CHR ''(''), Star isspace] @ map Lit ''SELECT'' @ [WordB]"

definition WITH_RE :: "atom list" where
  "WITH_RE = [Bol, Star isspace] @ map Lit ''WITH'' @ [WordB]"

definition SEMICOLON_RE :: "atom list" where
  "SEMICOLON_RE = [Lit CHR '';'']"

definition LIMIT_RE :: "atom list" where
  "LIMIT_RE = [WordB] @ map Lit ''LIMIT'' @ [Plus isspace, Plus isdigit, WordB]"

datatype exn = SQLSanitizerError string | Exception string

text \<open>The two \<open>for\<close> loops raise at the first entry of their list that is found in the
  cleaned string.\<close>

fun first_found :: "string list \<Rightarrow> string \<Rightarrow> string option" where
  "first_found [] cleaned = None"
| "first_found (w # ws) cleaned =
     (if re_search (word_re w) cleaned then Some w else first_found ws cleaned)"

definition basic_sanitize_and_enforce :: "string \<Rightarrow> int \<Rightarrow> exn + string" where
  "basic_sanitize_and_enforce sql max_rows =
     (if sql = [] \<or> strip sql = [] then
        Inl (SQLSanitizerError ''Empty SQL returned from model.'')
      else
        let cleaned = strip sql in
        if re_search SEMICOLON_RE cleaned then
          Inl (SQLSanitizerError ''Multiple statements or semicolons not allowed.'')
        else if first_found SYSTEM_TABLES cleaned \<noteq> None then
          Inl (SQLSanitizerError ''Access to system catalogs is not allowed.'')
        else
          case first_found BLOCKED_WORDS cleaned of
            Some w \<Rightarrow>
              Inl (SQLSanitizerError (''Disallowed SQL operation detected: '' @ word_src w))
          | None \<Rightarrow>
              if \<not> re_match SELECT_RE cleaned \<and> \<not> re_match WITH_RE cleaned then
                Inl (SQLSanitizerError ''Only SELECT queries are allowed.'')
              else if \<not> re_search LIMIT_RE cleaned then
                Inr (rstrip cleaned @ '' LIMIT '' @ str_int max_rows)
              else Inr cleaned)"

text \<open>\<open>execute_sql\<close> sanitizes with the default \<open>max_rows\<close>, runs the statement and
  fetches with \<open>fetchmany(row_limit)\<close>. The database is a parameter: \<open>cursor_execute\<close>
  takes the statement and its parameters and gives the error raised by \<open>execute\<close> or
  by the fetch, or the column names of \<open>cursor.description\<close> (\<open>None\<close> when there is no
  result set) and the rows of the result. \<open>row_limit\<close> is a number of rows.\<close>

type_synonym 'v result_set = "string list option \<times> 'v list list"

definition fetchmany :: "nat \<Rightarrow> 'v list list \<Rightarrow> 'v list list" where
  "fetchmany n rows = take n rows"

definition execute_sql ::
  "(string \<Rightarrow> string list \<Rightarrow> string + 'v result_set) \<Rightarrow> string \<Rightarrow> nat \<Rightarrow> exn + 'v list list" where
  "execute_sql cursor_execute sql row_limit =
     (case basic_sanitize_and_enforce sql 1000 of
        Inl e \<Rightarrow> Inl e
      | Inr sql' \<Rightarrow>
          (case cursor_execute sql' [] of
             Inl msg \<Rightarrow> Inl (Exception msg)
           | Inr (description, rows) \<Rightarrow> Inr (fetchmany row_limit rows)))"

section \<open>schema\_helper.py and gemini\_client.py\<close>

text \<open>\<open>sep.join(xs)\<close>.\<close>

fun join :: "string \<Rightarrow> string list \<Rightarrow> string" where
  "join sep [] = []"
| "join sep [x] = x"
| "join sep (x # y # ys) = x @ sep @ join sep (y # ys)"

text \<open>A field of a Django model: its column (\<open>None\<close> when the field has no \<open>column\<close>
  attribute or an empty one) and its internal type. A model is its table name and
  its fields.\<close>

record field =
  column :: "string option"
  internal_type :: string

type_synonym model = "string \<times> field list"

definition field_text :: "field \<Rightarrow> string option" where
  "field_text f =
     (case column f of
        None \<Rightarrow> None
      | Some c \<Rightarrow> if c = [] then None else Some (c @ '' ('' @ internal_type f @ '')''))"

definition get_schema_context :: "model list \<Rightarrow> string" where
  "get_schema_context models =
     join [CHR 0x0A, CHR 0x0A]
       (map (\<lambda>(table, fields).
               ''Table: '' @ table @ [CHR 0x0A] @ ''  Columns: ''
                 @ join '', '' (List.map_filter field_text fields))
            models)"

text \<open>\<open>s.startswith(p)\<close>, \<open>s.strip(chars)\<close> and \<open>s.replace(old, new)\<close> (the occurrences of
  \<open>old\<close> from left to right, not overlapping).\<close>

definition startswith :: "string \<Rightarrow> string \<Rightarrow> bool" where
  "startswith s p = (take (length p) s = p)"

definition strip_chars :: "string \<Rightarrow> string \<Rightarrow> string" where
  "strip_chars chars s =
     rev (dropWhile (\<lambda>c. c \<in> set chars) (rev (dropWhile (\<lambda>c. c \<in> set chars) s)))"

function replace :: "string \<Rightarrow> string \<Rightarrow> string \<Rightarrow> string" where
  "replace old new s =
     (if old = [] then new @ concat (map (\<lambda>c. c # new) s)
      else if s = [] then []
      else if startswith s old then new @ replace old new (drop (length old) s)
      else hd s # replace old new (tl s))"
  by pat_completeness auto
termination
  by (relation "measure (\<lambda>(old, new, s). length s)") auto

declare replace.simps [simp del]

text \<open>The environment of a request: the models of the application; the text generation
  client (the prompt to the error raised, or to the text of the response); the
  database; the time the request takes; whether the name \<open>pd\<close> is \<open>None\<close>; what
  \<open>pd.DataFrame(results).to_csv(index=False)\<close> does (the error it raises, or the text);
  and the log table: for the writes of the request to it, counted from 0 (the
  \<open>objects.create\<close>), the error a write raises, if it raises.\<close>

record ('v, 't) env =
  models :: "model list"
  generate_content :: "string \<Rightarrow> string + string"
  cursor_execute :: "string \<Rightarrow> string list \<Rightarrow> string + 'v result_set"
  runtime :: 't
  pd_is_none :: bool
  to_csv :: "(string \<times> 'v) list list \<Rightarrow> string + string"
  save_error :: "nat \<Rightarrow> string option"

definition system_prompt :: "string \<Rightarrow> string \<Rightarrow> string" where
  "system_prompt schema_hint nl_query =
     ''You are an expert SQL generator for PostgreSQL. ''
     @ ''Always use double quotes for table and column names exactly as in the schema. ''
     @ ''Only produce a single SELECT statement, no semicolons and make the sql in one line. ''
     @ ''Return only SQL, no explanations.'' @ [CHR 0x0A, CHR 0x0A]
     @ ''Database schema:'' @ [CHR 0x0A] @ schema_hint @ [CHR 0x0A, CHR 0x0A]
     @ ''User question:'' @ [CHR 0x0A] @ nl_query @ [CHR 0x0A, CHR 0x0A]"

text \<open>\<open>GeminiWrapper.nl_to_sql\<close>: the argument \<open>schema_hint\<close> is overwritten by
  \<open>get_schema_context()\<close> in the first statement.\<close>

definition nl_to_sql :: "('v, 't) env \<Rightarrow> string \<Rightarrow> string \<Rightarrow> string + string" where
  "nl_to_sql env nl_query schema_hint =
     (let schema_hint = get_schema_context (models env) in
      case generate_content env (system_prompt schema_hint nl_query) of
        Inl msg \<Rightarrow> Inl msg
      | Inr text \<Rightarrow>
          let sql = strip text in
          Inr (if startswith sql [CHR 0x60, CHR 0x60, CHR 0x60]
               then strip (replace ''sql'' [] (strip_chars [CHR 0x60] sql))
               else sql))"

section \<open>views.py\<close>

text \<open>The validated data of a request; the keys are read with \<open>get\<close> and a default.\<close>

record request =
  nl_query :: string
  schema :: "string option"
  format :: "string option"
  max_rows :: "int option"

record 't meta =
  runtime_s :: 't
  row_count :: nat

record 't QueryLog =
  log_nl_query :: string
  generated_sql :: "string option"
  status :: string
  error :: "string option"
  meta :: "'t meta option"

text \<open>What a request writes to the table of \<open>QueryLog\<close>: \<open>objects.create\<close> inserts a
  row, \<open>save\<close> updates it.\<close>

datatype 't db_write = Create "'t QueryLog" | Save "'t QueryLog"

datatype ('v, 't) body =
    SqlRowsMeta string "(string \<times> 'v) list list" "'t meta"
  | CsvRows string nat
  | Error string
  | ErrorDetail string string

datatype ('v, 't) response = Response "('v, 't) body" nat

text \<open>What \<open>post\<close> does: the exception that leaves it or the response it returns, the
  writes to the log table that succeeded, in order, the string it gave to the sanitizer
  (if it came to that), and the statements it executed on the cursor in order.\<close>

record ('v, 't) outcome =
  response :: "string + ('v, 't) response"
  writes :: "'t db_write list"
  sanitized :: "string option"
  executed :: "(string \<times> string list) list"

text \<open>\<open>dict(pairs)\<close>: a later value for a key replaces the earlier one in place.\<close>

definition dict :: "('k \<times> 'v) list \<Rightarrow> ('k \<times> 'v) list" where
  "dict kvs = foldl (\<lambda>d (k, v). AList.update k v d) [] kvs"

text \<open>The handler \<open>except Exception\<close>, entered with the log object as it is in memory,
  when \<open>i\<close> writes have been tried: it sets the status and the error and saves; an
  error of that \<open>save\<close> leaves the view.\<close>

definition on_exception ::
  "('v, 't) env \<Rightarrow> nat \<Rightarrow> 't QueryLog \<Rightarrow> 't db_write list \<Rightarrow> string option
     \<Rightarrow> (string \<times> string list) list \<Rightarrow> string \<Rightarrow> ('v, 't) outcome" where
  "on_exception env i log ws arg stmts msg =
     (let log = log\<lparr>status := ''error'', error := Some msg\<rparr> in
      case save_error env i of
        Some m \<Rightarrow> \<lparr>response = Inl m, writes = ws, sanitized = arg, executed = stmts\<rparr>
      | None \<Rightarrow>
          \<lparr>response = Inr (Response (ErrorDetail ''Execution failed'' msg) 500),
           writes = ws @ [Save log], sanitized = arg, executed = stmts\<rparr>)"

text \<open>\<open>Text2SQLAPIView.post\<close>, from the validated data on. \<open>objects.create\<close> stands before
  the \<open>try\<close>. Everything from the call of the generator to the building of the response
  is inside it: the two \<open>log.save()\<close>, the sanitizer, the cursor, and, after the status
  \<open>success\<close> is saved, the rendering of the rows. The \<open>save\<close> in the handler of
  \<open>SQLSanitizerError\<close> is outside it.\<close>

definition post :: "('v, 't) env \<Rightarrow> request \<Rightarrow> ('v, 't) outcome" where
  "post env data =
     (let nl_query = nl_query data;
          schema_hint = (case schema data of None \<Rightarrow> [] | Some s \<Rightarrow> s);
          out_format = (case format data of None \<Rightarrow> ''json'' | Some f \<Rightarrow> f);
          max_rows = (case max_rows data of None \<Rightarrow> 1000 | Some n \<Rightarrow> n);
          log = \<lparr>log_nl_query = nl_query, generated_sql = None, status = ''running'',
                 error = None, meta = None\<rparr>
      in
      case save_error env 0 of
        Some m \<Rightarrow> \<lparr>response = Inl m, writes = [], sanitized = None, executed = []\<rparr>
      | None \<Rightarrow>
      let ws = [Create log] in
      case nl_to_sql env nl_query schema_hint of
        Inl msg \<Rightarrow> on_exception env 1 log ws None [] msg
      | Inr raw_sql \<Rightarrow>
          let log = log\<lparr>generated_sql := Some raw_sql\<rparr> in
          (case save_error env 1 of
             Some m \<Rightarrow> on_exception env 2 log ws None [] m
           | None \<Rightarrow>
          let ws = ws @ [Save log] in
          (case basic_sanitize_and_enforce raw_sql max_rows of
             Inl (SQLSanitizerError msg) \<Rightarrow>
               (let log = log\<lparr>status := ''rejected'', error := Some msg\<rparr> in
                case save_error env 2 of
                  Some m \<Rightarrow>
                    \<lparr>response = Inl m, writes = ws, sanitized = Some raw_sql, executed = []\<rparr>
                | None \<Rightarrow>
                    \<lparr>response = Inr (Response (Error msg) 400), writes = ws @ [Save log],
                     sanitized = Some raw_sql, executed = []\<rparr>)
           | Inl (Exception msg) \<Rightarrow> on_exception env 2 log ws (Some raw_sql) [] msg
           | Inr sql \<Rightarrow>
               let set_timeout = (''SET LOCAL statement_timeout = %s'', [''5000'']) in
               (case cursor_execute env (fst set_timeout) (snd set_timeout) of
                  Inl msg \<Rightarrow> on_exception env 2 log ws (Some raw_sql) [set_timeout] msg
                | Inr _ \<Rightarrow>
                    (case cursor_execute env sql [] of
                       Inl msg \<Rightarrow>
                         on_exception env 2 log ws (Some raw_sql) [set_timeout, (sql, [])] msg
                     | Inr (description, rows) \<Rightarrow>
                         let columns = (case description of None \<Rightarrow> [] | Some cols \<Rightarrow> cols);
                             stmts = [set_timeout, (sql, [])];
                             log = log\<lparr>status := ''success'',
                                       meta := Some \<lparr>runtime_s = runtime env,
                                                     row_count = length rows\<rparr>\<rparr>
                         in
                         (case save_error env 2 of
                            Some m \<Rightarrow> on_exception env 3 log ws (Some raw_sql) stmts m
                          | None \<Rightarrow>
                         let ws = ws @ [Save log];
                             results = map (\<lambda>r. dict (zip columns r)) rows
                         in
                         if out_format = ''dataframe_csv'' then
                           if pd_is_none env then
                             \<lparr>response =
                                Inr (Response (Error ''pandas is not installed on server.'') 500),
                              writes = ws, sanitized = Some raw_sql, executed = stmts\<rparr>
                           else
                             (case to_csv env results of
                                Inl msg \<Rightarrow> on_exception env 3 log ws (Some raw_sql) stmts msg
                              | Inr csv \<Rightarrow>
                                  \<lparr>response = Inr (Response (CsvRows csv (length results)) 200),
                                   writes = ws, sanitized = Some raw_sql, executed = stmts\<rparr>)
                         else
                           \<lparr>response =
                              Inr (Response (SqlRowsMeta sql results
                                     \<lparr>runtime_s = runtime env, row_count = length rows\<rparr>) 200),
                            writes = ws, sanitized = Some raw_sql, executed = stmts\<rparr>))))))"

text \<open>The character before the position reached after reading \<open>c\<close> from a position
  with \<open>p\<close> before it.\<close>

definition last_char :: "char option \<Rightarrow> string \<Rightarrow> char option" where
  "last_char p c = (if c = [] then p else Some (last c))"

section \<open>The shapes the specification speaks of\<close>

text \<open>A string begins with a word in any letter case; it begins with the word as a whole
  word when the character after it, if there is one, is not a word character.\<close>

definition ci_prefix :: "string \<Rightarrow> string \<Rightarrow> bool" where
  "ci_prefix w s = (map lower (take (length w) s) = map lower w)"

definition word_prefix :: "string \<Rightarrow> string \<Rightarrow> bool" where
  "word_prefix w s = (ci_prefix w s \<and> \<not> word_after (drop (length w) s))"

text \<open>The specification's reading of the start of a query: after any leading opening
  parentheses and white space, in any order, comes \<open>SELECT\<close>; or the string begins
  with \<open>WITH\<close>.\<close>

definition begins_with_select :: "string \<Rightarrow> bool" where
  "begins_with_select s = ci_prefix ''SELECT'' (dropWhile (\<lambda>c. c = CHR ''('' \<or> isspace c) s)"

definition begins_with_with :: "string \<Rightarrow> bool" where
  "begins_with_with s = ci_prefix ''WITH'' s"

text \<open>What \<open>SELECT_RE\<close> and the pattern for \<open>WITH\<close> accept on a trimmed string: opening
  parentheses, then white space, then \<open>SELECT\<close> as a whole word; or \<open>WITH\<close> as a
  whole word at the start.\<close>

definition select_head :: "string \<Rightarrow> bool" where
  "select_head s =
     word_prefix ''SELECT'' (dropWhile isspace (dropWhile (\<lambda>c. c = CHR ''('') s))"

definition with_head :: "string \<Rightarrow> bool" where
  "with_head s = word_prefix ''WITH'' s"

text \<open>\<open>SELECT\<close> as a whole word after leading opening parentheses and white space in any
  order.\<close>

definition select_after_openers :: "string \<Rightarrow> bool" where
  "select_after_openers s =
     word_prefix ''SELECT'' (dropWhile (\<lambda>c. c = CHR ''('' \<or> isspace c) s)"

text \<open>\<open>s.endswith(t)\<close>.\<close>

definition endswith :: "string \<Rightarrow> string \<Rightarrow> bool" where
  "endswith s t = (length t \<le> length s \<and> drop (length s - length t) s = t)"

text \<open>A word occurs in a string as a whole word, in any letter case, when at some position
  the string goes on with the word, the character before the position (if there is one)
  is not a word character, and neither is the character after the word (if there is
  one).\<close>

definition whole_word_at :: "string \<Rightarrow> string \<Rightarrow> nat \<Rightarrow> bool" where
  "whole_word_at w s i =
     (\<not> word_before (last_char None (take i s)) \<and> word_prefix w (drop i s))"

definition contains_word :: "string \<Rightarrow> string \<Rightarrow> bool" where
  "contains_word w s = list_ex (whole_word_at w s) [0..<Suc (length s)]"

section \<open>The life of a log row, and example environments\<close>

fun write_row :: "'t db_write \<Rightarrow> 't QueryLog" where
  "write_row (Create l) = l"
| "write_row (Save l) = l"


text \<open>The statuses the row of a request has after each write, in order.\<close>

definition statuses :: "'t db_write list \<Rightarrow> string list" where
  "statuses ws = map (\<lambda>w. status (write_row w)) ws"





text \<open>An environment with no models, a generator that answers every prompt with the given
  text, a database that answers every statement with three rows of one column, pandas
  present and rendering every result as the empty text, and a log table that takes
  every write; and a database that answers one statement only.\<close>

definition three_rows :: "string \<Rightarrow> string list \<Rightarrow> string + nat result_set" where
  "three_rows stmt params = Inr (Some [''x''], [[1], [2], [3]])"

definition only_statement :: "string \<Rightarrow> string \<Rightarrow> string list \<Rightarrow> string + nat result_set" where
  "only_statement q stmt params =
     (if stmt = q then Inr (Some [''x''], [[1], [2], [3]]) else Inl ''unexpected statement'')"

definition demo_env :: "string \<Rightarrow> (nat, nat) env" where
  "demo_env answer =
     \<lparr>models = [], generate_content = (\<lambda>prompt. Inr answer),
      cursor_execute = three_rows, runtime = 0, pd_is_none = False,
      to_csv = (\<lambda>rows. Inr []), save_error = (\<lambda>i. None)\<rparr>"

definition demo_request :: "string option \<Rightarrow> int \<Rightarrow> request" where
  "demo_request sch n = \<lparr>nl_query = ''q'', schema = sch, format = None, max_rows = Some n\<rparr>"

section \<open>Properties of the characters and of strip\<close>

subsection \<open>Characters\<close>

lemma ord_Char: "ord (Char b0 b1 b2 b3 b4 b5 b6 b7) =
  (if b0 then 1 else 0) + ((if b1 then 2 else 0) + ((if b2 then 4 else 0) + ((if b3 then 8 else 0) +
  ((if b4 then 16 else 0) + ((if b5 then 32 else 0) + ((if b6 then 64 else 0) + (if b7 then 128 else 0)))))))"
  by (simp add: ord_def)

lemma ord_less_256: "ord c < 256"
  by (simp add: ord_def)

lemma char_eq_ord: "(a = b) \<longleftrightarrow> (ord a = ord b)"
  by (simp add: ord_def)

lemma ord_char_of: "ord (char_of (n::nat)) = n mod 256"
  by (simp add: ord_def)

lemma ord_lower:
  "ord (lower c) = (if (65 \<le> ord c \<and> ord c \<le> 90) \<or> (192 \<le> ord c \<and> ord c \<le> 214)
                       \<or> (216 \<le> ord c \<and> ord c \<le> 222) then ord c + 32 else ord c)"
  by (simp add: lower_def ord_char_of)

lemma isword_lower: "isword (lower c) = isword c"
  unfolding isword_def ord_lower using ord_less_256[of c] by (simp split: if_splits)

lemma isspace_lower: "isspace (lower c) = isspace c"
  unfolding isspace_def ord_lower by (simp split: if_splits)

lemma isdigit_lower: "isdigit (lower c) = isdigit c"
  unfolding isdigit_def ord_lower by (simp split: if_splits)

lemma lower_eq_isword: "lower x = lower c \<Longrightarrow> isword x = isword c"
  by (metis isword_lower)

lemma lower_eq_isspace: "lower x = lower c \<Longrightarrow> isspace x = isspace c"
  by (metis isspace_lower)

lemma lower_eq_isdigit: "lower x = lower c \<Longrightarrow> isdigit x = isdigit c"
  by (metis isdigit_lower)

lemma isspace_not_isword: "isspace c \<Longrightarrow> \<not> isword c"
  unfolding isspace_def isword_def by arith

lemma isdigit_isword: "isdigit c \<Longrightarrow> isword c"
  unfolding isdigit_def isword_def by arith

lemma lower_semicolon: "lower x = lower CHR '';'' \<longleftrightarrow> x = CHR '';''"
  unfolding char_eq_ord ord_lower by (simp add: ord_Char split: if_splits)

lemma not_isspace_semicolon: "\<not> isspace CHR '';''"
  by (simp add: isspace_def ord_Char)

subsection \<open>strip\<close>

lemma in_set_dropWhile: "x \<in> set s \<Longrightarrow> \<not> P x \<Longrightarrow> x \<in> set (dropWhile P s)"
  by (induction s) auto

lemma in_set_strip: "x \<in> set s \<Longrightarrow> \<not> isspace x \<Longrightarrow> x \<in> set (strip s)"
  unfolding strip_def rstrip_def lstrip_def
  by (simp add: in_set_dropWhile)

lemma set_strip_subset: "set (strip s) \<subseteq> set s"
  unfolding strip_def rstrip_def lstrip_def
  by (metis set_rev set_dropWhileD subsetI)

subsection \<open>search\<close>

lemma search_from_Lit: "search_from [Lit c] p s \<longleftrightarrow> (\<exists>x\<in>set s. lower x = lower c)"
  by (induction s arbitrary: p) auto

lemma re_search_SEMICOLON: "re_search SEMICOLON_RE s \<longleftrightarrow> CHR '';'' \<in> set s"
  by (simp add: re_search_def SEMICOLON_RE_def search_from_Lit lower_semicolon)

subsection \<open>Matching and appended text\<close>

lemma at_boundary_append:
  "\<not> isword sp \<Longrightarrow> at_boundary p (c @ sp # t) = at_boundary p c"
  by (cases c) (simp_all add: at_boundary_def)

lemma matches_append_nonword:
  "matches rs p c \<Longrightarrow> \<not> isword sp \<Longrightarrow> matches rs p (c @ sp # t)"
proof (induction rs p c rule: matches.induct)
  case (4 rs p s)
  then show ?case by (simp add: at_boundary_append)
next
  case (6 P rs p)
  then have "matches rs p (sp # t)" by simp
  then show ?case by simp
qed auto

lemma search_append_nonword:
  "search_from pat p c \<Longrightarrow> \<not> isword sp \<Longrightarrow> search_from pat p (c @ sp # t)"
proof (induction c arbitrary: p)
  case Nil
  then have "matches pat p ([] @ sp # t)" by (intro matches_append_nonword) simp_all
  then show ?case by simp
next
  case (Cons x c)
  then show ?case using matches_append_nonword [of pat p "x # c" sp t] by auto
qed

lemma search_append_right:
  "search_from pat (last_char p c) t \<Longrightarrow> search_from pat p (c @ t)"
proof (induction c arbitrary: p)
  case Nil
  then show ?case by (simp add: last_char_def)
next
  case (Cons x c)
  have "last_char p (x # c) = last_char (Some x) c" by (simp add: last_char_def)
  with Cons show ?case by simp
qed

lemma search_from_matches: "matches pat p s \<Longrightarrow> search_from pat p s"
  by (cases s) simp_all

subsection \<open>Word patterns\<close>

lemma lits_word_append:
  "list_all isword w \<Longrightarrow> \<not> isword sp \<Longrightarrow>
   matches (map Lit w @ [WordB]) p (c @ sp # t) = matches (map Lit w @ [WordB]) p c"
proof (induction w arbitrary: p c)
  case Nil
  then show ?case by (simp add: at_boundary_append)
next
  case (Cons k w)
  show ?case
  proof (cases c)
    case Nil
    have "lower sp \<noteq> lower k" using Cons.prems lower_eq_isword [of sp k] by auto
    with Nil show ?thesis by simp
  next
    case (Cons x c')
    with Cons.IH [of "Some x" c'] Cons.prems show ?thesis by simp
  qed
qed

lemma word_re_append:
  "list_all isword w \<Longrightarrow> \<not> isword sp \<Longrightarrow>
   matches (word_re w) p (c @ sp # t) = matches (word_re w) p c"
  by (simp add: word_re_def at_boundary_append lits_word_append)

lemma word_search_split:
  "list_all isword w \<Longrightarrow> \<not> isword sp \<Longrightarrow>
   search_from (word_re w) p (c @ sp # t) =
     (search_from (word_re w) p c \<or> search_from (word_re w) (Some sp) t)"
proof (induction c arbitrary: p)
  case Nil
  then show ?case using word_re_append [of w sp p "[]" t] by simp
next
  case (Cons x c)
  then show ?case using word_re_append [of w sp p "x # c" t] by auto
qed

lemma lits_ignore_prev:
  "w \<noteq> [] \<Longrightarrow> matches (map Lit w @ rs) p s = matches (map Lit w @ rs) q s"
  by (cases w; cases s) simp_all

lemma word_re_prev:
  "w \<noteq> [] \<Longrightarrow> word_before p = word_before q \<Longrightarrow>
   matches (word_re w) p s = matches (word_re w) q s"
  using lits_ignore_prev [of w "[WordB]" p s q] by (simp add: word_re_def at_boundary_def)

lemma word_search_prev:
  "w \<noteq> [] \<Longrightarrow> word_before p = word_before q \<Longrightarrow>
   search_from (word_re w) p s = search_from (word_re w) q s"
  using word_re_prev [of w p q s] by (cases s) simp_all

lemma word_re_first:
  "matches (word_re (k # w)) p s \<Longrightarrow> s \<noteq> [] \<and> lower (hd s) = lower k"
  by (cases s) (simp_all add: word_re_def)

lemma word_search_no_first:
  "\<forall>x\<in>set ds. lower x \<noteq> lower k \<Longrightarrow> \<not> search_from (word_re (k # w)) p ds"
proof (induction ds arbitrary: p)
  case Nil
  then show ?case by (simp add: word_re_def)
next
  case (Cons d ds)
  then show ?case using word_re_first [of k w p "d # ds"] by auto
qed

lemma word_search_spaces:
  "isword k \<Longrightarrow> list_all isspace b \<Longrightarrow> \<not> search_from (word_re (k # w)) p b"
proof (rule word_search_no_first, rule ballI)
  fix x assume "isword k" "list_all isspace b" "x \<in> set b"
  then have "isspace x" by (simp add: list_all_iff)
  then have "\<not> isword x" by (rule isspace_not_isword)
  with \<open>isword k\<close> show "lower x \<noteq> lower k" using lower_eq_isword by blast
qed

lemma word_search_leading:
  "list_all isword (k # w) \<Longrightarrow> list_all isspace a \<Longrightarrow> \<not> word_before p \<Longrightarrow>
   search_from (word_re (k # w)) p (a @ c) = search_from (word_re (k # w)) p c"
proof (induction a arbitrary: p)
  case Nil
  then show ?case by simp
next
  case (Cons x a)
  then have nx: "\<not> isword x" by (simp add: isspace_not_isword)
  have 1: "search_from (word_re (k # w)) p ((x # a) @ c) =
        (search_from (word_re (k # w)) p [] \<or> search_from (word_re (k # w)) (Some x) (a @ c))"
    using word_search_split [OF Cons.prems(1) nx, of p "[]" "a @ c"] by simp
  have 2: "\<not> search_from (word_re (k # w)) p []" by (simp add: word_re_def)
  have 3: "search_from (word_re (k # w)) (Some x) (a @ c) = search_from (word_re (k # w)) (Some x) c"
    using Cons nx by simp
  have 4: "search_from (word_re (k # w)) (Some x) c = search_from (word_re (k # w)) p c"
    using Cons.prems(3) nx by (intro word_search_prev) simp_all
  from 1 2 3 4 show ?case by simp
qed

lemma word_search_trailing:
  "list_all isword (k # w) \<Longrightarrow> list_all isspace b \<Longrightarrow>
   search_from (word_re (k # w)) p (c @ b) = search_from (word_re (k # w)) p c"
proof (cases b)
  case Nil
  then show ?thesis by simp
next
  case (Cons x b')
  assume a: "list_all isword (k # w)" "list_all isspace b"
  with Cons have nx: "\<not> isword x" by (simp add: isspace_not_isword)
  have "\<not> search_from (word_re (k # w)) (Some x) b'"
    using a Cons by (intro word_search_spaces) simp_all
  then show ?thesis using word_search_split [OF a(1) nx, of p c b'] Cons by simp
qed

subsection \<open>strip\<close>

lemma rev_split: "u = rev (dropWhile P (rev u)) @ rev (takeWhile P (rev u))"
proof -
  have "rev (rev u) = rev (takeWhile P (rev u) @ dropWhile P (rev u))"
    by (simp only: takeWhile_dropWhile_id)
  then show ?thesis by (simp only: rev_rev_ident rev_append)
qed

lemma strip_decomp:
  "\<exists>a b. s = a @ strip s @ b \<and> list_all isspace a \<and> list_all isspace b"
proof -
  let ?u = "dropWhile isspace s"
  have 1: "s = takeWhile isspace s @ ?u" by simp
  have 2: "?u = strip s @ rev (takeWhile isspace (rev ?u))"
    using rev_split [of ?u isspace] by (simp add: strip_def rstrip_def lstrip_def)
  have 3: "list_all isspace (takeWhile isspace s)"
    by (simp add: list_all_iff) (meson set_takeWhileD)
  have 4: "list_all isspace (rev (takeWhile isspace (rev ?u)))"
    by (simp add: list_all_iff) (meson set_takeWhileD)
  from 1 2 have "s = takeWhile isspace s @ strip s @ rev (takeWhile isspace (rev ?u))" by simp
  with 3 4 show ?thesis by blast
qed

lemma word_search_strip:
  assumes "list_all isword w" "w \<noteq> []"
  shows "re_search (word_re w) (strip s) = re_search (word_re w) s"
proof -
  obtain k w' where w: "w = k # w'" using assms(2) by (cases w) auto
  obtain a b where s: "s = a @ strip s @ b" and a: "list_all isspace a" and b: "list_all isspace b"
    using strip_decomp by blast
  have "re_search (word_re w) s = search_from (word_re w) None (a @ strip s @ b)"
    using s by (simp add: re_search_def)
  also have "\<dots> = search_from (word_re w) None (strip s @ b)"
    using assms(1) a unfolding w by (intro word_search_leading) simp_all
  also have "\<dots> = search_from (word_re w) None (strip s)"
    using assms(1) b unfolding w by (intro word_search_trailing) simp_all
  finally show ?thesis by (simp add: re_search_def)
qed

subsection \<open>Characters of the examples\<close>

lemma lower_tab:
  "lower CHR ''A'' = CHR ''a''" "lower CHR ''B'' = CHR ''b''" "lower CHR ''C'' = CHR ''c''" "lower CHR ''D'' = CHR ''d''"
  "lower CHR ''E'' = CHR ''e''" "lower CHR ''F'' = CHR ''f''" "lower CHR ''G'' = CHR ''g''" "lower CHR ''H'' = CHR ''h''"
  "lower CHR ''I'' = CHR ''i''" "lower CHR ''J'' = CHR ''j''" "lower CHR ''K'' = CHR ''k''" "lower CHR ''L'' = CHR ''l''"
  "lower CHR ''M'' = CHR ''m''" "lower CHR ''N'' = CHR ''n''" "lower CHR ''O'' = CHR ''o''" "lower CHR ''P'' = CHR ''p''"
  "lower CHR ''Q'' = CHR ''q''" "lower CHR ''R'' = CHR ''r''" "lower CHR ''S'' = CHR ''s''" "lower CHR ''T'' = CHR ''t''"
  "lower CHR ''U'' = CHR ''u''" "lower CHR ''V'' = CHR ''v''" "lower CHR ''W'' = CHR ''w''" "lower CHR ''X'' = CHR ''x''"
  "lower CHR ''Y'' = CHR ''y''" "lower CHR ''Z'' = CHR ''z''" "lower CHR ''a'' = CHR ''a''" "lower CHR ''b'' = CHR ''b''"
  "lower CHR ''c'' = CHR ''c''" "lower CHR ''d'' = CHR ''d''" "lower CHR ''e'' = CHR ''e''" "lower CHR ''f'' = CHR ''f''"
  "lower CHR ''g'' = CHR ''g''" "lower CHR ''h'' = CHR ''h''" "lower CHR ''i'' = CHR ''i''" "lower CHR ''j'' = CHR ''j''"
  "lower CHR ''k'' = CHR ''k''" "lower CHR ''l'' = CHR ''l''" "lower CHR ''m'' = CHR ''m''" "lower CHR ''n'' = CHR ''n''"
  "lower CHR ''o'' = CHR ''o''" "lower CHR ''p'' = CHR ''p''" "lower CHR ''q'' = CHR ''q''" "lower CHR ''r'' = CHR ''r''"
  "lower CHR ''s'' = CHR ''s''" "lower CHR ''t'' = CHR ''t''" "lower CHR ''u'' = CHR ''u''" "lower CHR ''v'' = CHR ''v''"
  "lower CHR ''w'' = CHR ''w''" "lower CHR ''x'' = CHR ''x''" "lower CHR ''y'' = CHR ''y''" "lower CHR ''z'' = CHR ''z''"
  "lower CHR ''0'' = CHR ''0''" "lower CHR ''1'' = CHR ''1''" "lower CHR ''2'' = CHR ''2''" "lower CHR ''3'' = CHR ''3''"
  "lower CHR ''4'' = CHR ''4''" "lower CHR ''5'' = CHR ''5''" "lower CHR ''6'' = CHR ''6''" "lower CHR ''7'' = CHR ''7''"
  "lower CHR ''8'' = CHR ''8''" "lower CHR ''9'' = CHR ''9''" "lower CHR '' '' = CHR '' ''" "lower CHR ''('' = CHR ''(''"
  "lower CHR '')'' = CHR '')''" "lower CHR ''*'' = CHR ''*''" "lower CHR '';'' = CHR '';''" "lower CHR ''_'' = CHR ''_''"
  "lower CHR ''-'' = CHR ''-''"
  unfolding char_eq_ord ord_lower by (simp_all add: ord_Char)

lemma isword_tab:
  "isword CHR ''A'' = True" "isword CHR ''B'' = True" "isword CHR ''C'' = True" "isword CHR ''D'' = True"
  "isword CHR ''E'' = True" "isword CHR ''F'' = True" "isword CHR ''G'' = True" "isword CHR ''H'' = True"
  "isword CHR ''I'' = True" "isword CHR ''J'' = True" "isword CHR ''K'' = True" "isword CHR ''L'' = True"
  "isword CHR ''M'' = True" "isword CHR ''N'' = True" "isword CHR ''O'' = True" "isword CHR ''P'' = True"
  "isword CHR ''Q'' = True" "isword CHR ''R'' = True" "isword CHR ''S'' = True" "isword CHR ''T'' = True"
  "isword CHR ''U'' = True" "isword CHR ''V'' = True" "isword CHR ''W'' = True" "isword CHR ''X'' = True"
  "isword CHR ''Y'' = True" "isword CHR ''Z'' = True" "isword CHR ''a'' = True" "isword CHR ''b'' = True"
  "isword CHR ''c'' = True" "isword CHR ''d'' = True" "isword CHR ''e'' = True" "isword CHR ''f'' = True"
  "isword CHR ''g'' = True" "isword CHR ''h'' = True" "isword CHR ''i'' = True" "isword CHR ''j'' = True"
  "isword CHR ''k'' = True" "isword CHR ''l'' = True" "isword CHR ''m'' = True" "isword CHR ''n'' = True"
  "isword CHR ''o'' = True" "isword CHR ''p'' = True" "isword CHR ''q'' = True" "isword CHR ''r'' = True"
  "isword CHR ''s'' = True" "isword CHR ''t'' = True" "isword CHR ''u'' = True" "isword CHR ''v'' = True"
  "isword CHR ''w'' = True" "isword CHR ''x'' = True" "isword CHR ''y'' = True" "isword CHR ''z'' = True"
  "isword CHR ''0'' = True" "isword CHR ''1'' = True" "isword CHR ''2'' = True" "isword CHR ''3'' = True"
  "isword CHR ''4'' = True" "isword CHR ''5'' = True" "isword CHR ''6'' = True" "isword CHR ''7'' = True"
  "isword CHR ''8'' = True" "isword CHR ''9'' = True" "isword CHR '' '' = False" "isword CHR ''('' = False"
  "isword CHR '')'' = False" "isword CHR ''*'' = False" "isword CHR '';'' = False" "isword CHR ''_'' = True"
  "isword CHR ''-'' = False"
  by (simp_all add: isword_def ord_Char)

lemma isspace_tab:
  "isspace CHR ''A'' = False" "isspace CHR ''B'' = False" "isspace CHR ''C'' = False" "isspace CHR ''D'' = False"
  "isspace CHR ''E'' = False" "isspace CHR ''F'' = False" "isspace CHR ''G'' = False" "isspace CHR ''H'' = False"
  "isspace CHR ''I'' = False" "isspace CHR ''J'' = False" "isspace CHR ''K'' = False" "isspace CHR ''L'' = False"
  "isspace CHR ''M'' = False" "isspace CHR ''N'' = False" "isspace CHR ''O'' = False" "isspace CHR ''P'' = False"
  "isspace CHR ''Q'' = False" "isspace CHR ''R'' = False" "isspace CHR ''S'' = False" "isspace CHR ''T'' = False"
  "isspace CHR ''U'' = False" "isspace CHR ''V'' = False" "isspace CHR ''W'' = False" "isspace CHR ''X'' = False"
  "isspace CHR ''Y'' = False" "isspace CHR ''Z'' = False" "isspace CHR ''a'' = False" "isspace CHR ''b'' = False"
  "isspace CHR ''c'' = False" "isspace CHR ''d'' = False" "isspace CHR ''e'' = False" "isspace CHR ''f'' = False"
  "isspace CHR ''g'' = False" "isspace CHR ''h'' = False" "isspace CHR ''i'' = False" "isspace CHR ''j'' = False"
  "isspace CHR ''k'' = False" "isspace CHR ''l'' = False" "isspace CHR ''m'' = False" "isspace CHR ''n'' = False"
  "isspace CHR ''o'' = False" "isspace CHR ''p'' = False" "isspace CHR ''q'' = False" "isspace CHR ''r'' = False"
  "isspace CHR ''s'' = False" "isspace CHR ''t'' = False" "isspace CHR ''u'' = False" "isspace CHR ''v'' = False"
  "isspace CHR ''w'' = False" "isspace CHR ''x'' = False" "isspace CHR ''y'' = False" "isspace CHR ''z'' = False"
  "isspace CHR ''0'' = False" "isspace CHR ''1'' = False" "isspace CHR ''2'' = False" "isspace CHR ''3'' = False"
  "isspace CHR ''4'' = False" "isspace CHR ''5'' = False" "isspace CHR ''6'' = False" "isspace CHR ''7'' = False"
  "isspace CHR ''8'' = False" "isspace CHR ''9'' = False" "isspace CHR '' '' = True" "isspace CHR ''('' = False"
  "isspace CHR '')'' = False" "isspace CHR ''*'' = False" "isspace CHR '';'' = False" "isspace CHR ''_'' = False"
  "isspace CHR ''-'' = False"
  by (simp_all add: isspace_def ord_Char)

lemma isdigit_tab:
  "isdigit CHR ''A'' = False" "isdigit CHR ''B'' = False" "isdigit CHR ''C'' = False" "isdigit CHR ''D'' = False"
  "isdigit CHR ''E'' = False" "isdigit CHR ''F'' = False" "isdigit CHR ''G'' = False" "isdigit CHR ''H'' = False"
  "isdigit CHR ''I'' = False" "isdigit CHR ''J'' = False" "isdigit CHR ''K'' = False" "isdigit CHR ''L'' = False"
  "isdigit CHR ''M'' = False" "isdigit CHR ''N'' = False" "isdigit CHR ''O'' = False" "isdigit CHR ''P'' = False"
  "isdigit CHR ''Q'' = False" "isdigit CHR ''R'' = False" "isdigit CHR ''S'' = False" "isdigit CHR ''T'' = False"
  "isdigit CHR ''U'' = False" "isdigit CHR ''V'' = False" "isdigit CHR ''W'' = False" "isdigit CHR ''X'' = False"
  "isdigit CHR ''Y'' = False" "isdigit CHR ''Z'' = False" "isdigit CHR ''a'' = False" "isdigit CHR ''b'' = False"
  "isdigit CHR ''c'' = False" "isdigit CHR ''d'' = False" "isdigit CHR ''e'' = False" "isdigit CHR ''f'' = False"
  "isdigit CHR ''g'' = False" "isdigit CHR ''h'' = False" "isdigit CHR ''i'' = False" "isdigit CHR ''j'' = False"
  "isdigit CHR ''k'' = False" "isdigit CHR ''l'' = False" "isdigit CHR ''m'' = False" "isdigit CHR ''n'' = False"
  "isdigit CHR ''o'' = False" "isdigit CHR ''p'' = False" "isdigit CHR ''q'' = False" "isdigit CHR ''r'' = False"
  "isdigit CHR ''s'' = False" "isdigit CHR ''t'' = False" "isdigit CHR ''u'' = False" "isdigit CHR ''v'' = False"
  "isdigit CHR ''w'' = False" "isdigit CHR ''x'' = False" "isdigit CHR ''y'' = False" "isdigit CHR ''z'' = False"
  "isdigit CHR ''0'' = True" "isdigit CHR ''1'' = True" "isdigit CHR ''2'' = True" "isdigit CHR ''3'' = True"
  "isdigit CHR ''4'' = True" "isdigit CHR ''5'' = True" "isdigit CHR ''6'' = True" "isdigit CHR ''7'' = True"
  "isdigit CHR ''8'' = True" "isdigit CHR ''9'' = True" "isdigit CHR '' '' = False" "isdigit CHR ''('' = False"
  "isdigit CHR '')'' = False" "isdigit CHR ''*'' = False" "isdigit CHR '';'' = False" "isdigit CHR ''_'' = False"
  "isdigit CHR ''-'' = False"
  by (simp_all add: isdigit_def ord_Char)

lemmas char_tabs = lower_tab isword_tab isspace_tab isdigit_tab

lemma digit_char_tab:
  "digit_char 0 = CHR ''0''" "digit_char 1 = CHR ''1''" "digit_char 2 = CHR ''2''"
  "digit_char 3 = CHR ''3''" "digit_char 4 = CHR ''4''" "digit_char 5 = CHR ''5''"
  "digit_char 6 = CHR ''6''" "digit_char 7 = CHR ''7''" "digit_char 8 = CHR ''8''"
  "digit_char 9 = CHR ''9''" "digit_char (Suc 0) = CHR ''1''"
  unfolding digit_char_def char_eq_ord ord_char_of by (simp_all add: ord_Char)

subsection \<open>Evaluation with the first failure deciding\<close>

lemma matches_ev:
  "matches [] p s = True"
  "matches (Lit c # rs) p [] = False"
  "matches (Lit c # rs) p (x # xs) = (if lower x = lower c then matches rs (Some x) xs else False)"
  "matches (WordB # rs) p s = (if at_boundary p s then matches rs p s else False)"
  "matches (Bol # rs) p s = (if p = None then matches rs p s else False)"
  "matches (Star P # rs) p [] = matches rs p []"
  "matches (Star P # rs) p (x # xs) =
     (if matches rs p (x # xs) then True
      else if P x then matches (Star P # rs) (Some x) xs else False)"
  "matches (Plus P # rs) p [] = False"
  "matches (Plus P # rs) p (x # xs) = (if P x then matches (Star P # rs) (Some x) xs else False)"
  by simp_all

lemma search_from_ev:
  "search_from pat p [] = matches pat p []"
  "search_from pat p (x # xs) = (if matches pat p (x # xs) then True else search_from pat (Some x) xs)"
  by simp_all

lemma first_found_ev:
  "first_found [] c = None"
  "first_found (w # ws) c = (if search_from (word_re w) None c then Some w else first_found ws c)"
  by (simp_all add: re_search_def)

lemmas re_ev = matches_ev search_from_ev first_found_ev word_re_def at_boundary_def
  SEMICOLON_RE_def SELECT_RE_def WITH_RE_def LIMIT_RE_def BLOCKED_WORDS_def SYSTEM_TABLES_def
  strip_def lstrip_def rstrip_def str_int_def digit_char_tab char_tabs

subsection \<open>Decimal digits\<close>

lemma isdigit_digit_char: "d < 10 \<Longrightarrow> isdigit (digit_char d)"
  unfolding isdigit_def digit_char_def ord_char_of by simp

lemma str_nat_digits: "list_all isdigit (str_nat m)"
proof (induction m rule: str_nat.induct)
  case (1 n)
  show ?case
  proof (cases "n < 10")
    case True
    then show ?thesis by (subst str_nat.simps) (simp add: isdigit_digit_char)
  next
    case False
    with 1 show ?thesis by (subst str_nat.simps) (simp add: isdigit_digit_char)
  qed
qed

lemma str_nat_nonempty: "str_nat m \<noteq> []"
  by (subst str_nat.simps) simp

lemma digits_star:
  "list_all isdigit ds \<Longrightarrow> isdigit d \<Longrightarrow> matches [Star isdigit, WordB] (Some d) ds"
  by (induction ds arbitrary: d) (simp_all add: at_boundary_def isdigit_isword)

lemma limit_matches:
  assumes "ds \<noteq> []" "list_all isdigit ds"
  shows "matches LIMIT_RE (Some CHR '' '') (''LIMIT '' @ ds)"
proof -
  obtain d ds' where ds: "ds = d # ds'" using assms(1) by (cases ds) auto
  with assms(2) have "matches [Star isdigit, WordB] (Some d) ds'" "isdigit d"
    by (simp_all add: digits_star)
  then show ?thesis unfolding ds LIMIT_RE_def
    by (simp add: at_boundary_def char_tabs)
qed

lemma limit_search_appended:
  assumes "ds \<noteq> []" "list_all isdigit ds"
  shows "re_search LIMIT_RE (c @ '' LIMIT '' @ ds)"
proof -
  have "search_from LIMIT_RE (last_char None (c @ '' '')) (''LIMIT '' @ ds)"
    using limit_matches [OF assms] by (simp add: last_char_def search_from_matches)
  then have "search_from LIMIT_RE None ((c @ '' '') @ (''LIMIT '' @ ds))"
    by (rule search_append_right)
  then show ?thesis by (simp add: re_search_def)
qed

subsection \<open>The words of the two lists and the appended clause\<close>

lemma word_search_digits:
  "\<not> isdigit k \<Longrightarrow> list_all isdigit ds \<Longrightarrow> \<not> search_from (word_re (k # w)) p ds"
proof (rule word_search_no_first, rule ballI)
  fix x assume "\<not> isdigit k" "list_all isdigit ds" "x \<in> set ds"
  then have "isdigit x" by (simp add: list_all_iff)
  with \<open>\<not> isdigit k\<close> show "lower x \<noteq> lower k" using lower_eq_isdigit by blast
qed

lemma word_search_str_int:
  assumes "list_all isword (k # w)" "\<not> isdigit k"
  shows "\<not> search_from (word_re (k # w)) (Some CHR '' '') (str_int n)"
proof (cases "n < 0")
  case False
  then show ?thesis using assms by (simp add: str_int_def word_search_digits str_nat_digits)
next
  case True
  have "search_from (word_re (k # w)) (Some CHR '' '') ([] @ CHR ''-'' # str_nat (nat (- n))) =
        (search_from (word_re (k # w)) (Some CHR '' '') [] \<or>
         search_from (word_re (k # w)) (Some CHR ''-'') (str_nat (nat (- n))))"
    using assms(1) by (intro word_search_split) (simp_all add: char_tabs)
  moreover have "\<not> search_from (word_re (k # w)) (Some CHR '' '') []" by (simp add: word_re_def)
  moreover have "\<not> search_from (word_re (k # w)) (Some CHR ''-'') (str_nat (nat (- n)))"
    using assms(2) by (simp add: word_search_digits str_nat_digits)
  ultimately show ?thesis using True by (simp add: str_int_def)
qed

lemma word_search_output:
  assumes "list_all isword (k # w)" "\<not> isdigit k"
    and "\<not> search_from (word_re (k # w)) (Some CHR '' '') ''LIMIT''"
  shows "re_search (word_re (k # w)) (c @ '' LIMIT '' @ str_int n) = re_search (word_re (k # w)) c"
proof -
  have sp: "\<not> isword CHR '' ''" by (simp add: char_tabs)
  have "search_from (word_re (k # w)) None (c @ CHR '' '' # (''LIMIT'' @ CHR '' '' # str_int n)) =
        (search_from (word_re (k # w)) None c \<or>
         search_from (word_re (k # w)) (Some CHR '' '') (''LIMIT'' @ CHR '' '' # str_int n))"
    using assms(1) sp by (rule word_search_split)
  moreover have "search_from (word_re (k # w)) (Some CHR '' '') (''LIMIT'' @ CHR '' '' # str_int n) =
        (search_from (word_re (k # w)) (Some CHR '' '') ''LIMIT'' \<or>
         search_from (word_re (k # w)) (Some CHR '' '') (str_int n))"
    using assms(1) sp by (rule word_search_split)
  ultimately show ?thesis
    using assms(3) word_search_str_int [OF assms(1,2), of n] by (simp add: re_search_def)
qed

lemma listed_words:
  "list_all (\<lambda>w. w \<noteq> [] \<and> list_all isword w \<and> \<not> isdigit (hd w)
                \<and> \<not> search_from (word_re w) (Some CHR '' '') ''LIMIT'')
     (SYSTEM_TABLES @ BLOCKED_WORDS)"
  by (simp del: matches.simps search_from.simps add: re_ev)

lemma listed_word_output:
  assumes "w \<in> set (SYSTEM_TABLES @ BLOCKED_WORDS)"
  shows "re_search (word_re w) (c @ '' LIMIT '' @ str_int n) = re_search (word_re w) c"
proof -
  from assms listed_words
  have g: "w \<noteq> [] \<and> list_all isword w \<and> \<not> isdigit (hd w)
           \<and> \<not> search_from (word_re w) (Some CHR '' '') ''LIMIT''"
    unfolding list_all_iff by blast
  then obtain k w' where w: "w = k # w'" by (cases w) auto
  show ?thesis using g unfolding w by (intro word_search_output) simp_all
qed

lemma listed_word_strip:
  assumes "w \<in> set (SYSTEM_TABLES @ BLOCKED_WORDS)"
  shows "re_search (word_re w) (strip s) = re_search (word_re w) s"
proof -
  from assms listed_words have "w \<noteq> [] \<and> list_all isword w"
    unfolding list_all_iff by blast
  then show ?thesis by (simp add: word_search_strip)
qed

subsection \<open>The loops over the lists\<close>

lemma first_found_find:
  "first_found ws c = List.find (\<lambda>w. re_search (word_re w) c) ws"
  by (induction ws) simp_all

lemma first_found_None_iff:
  "first_found ws c = None \<longleftrightarrow> (\<forall>w\<in>set ws. \<not> re_search (word_re w) c)"
  by (induction ws) simp_all

lemma first_found_cong:
  "(\<And>w. w \<in> set ws \<Longrightarrow> re_search (word_re w) a = re_search (word_re w) b) \<Longrightarrow>
   first_found ws a = first_found ws b"
  by (induction ws) simp_all

lemma first_found_system_output:
  "first_found SYSTEM_TABLES (c @ '' LIMIT '' @ str_int n) = first_found SYSTEM_TABLES c"
  by (rule first_found_cong, rule listed_word_output) simp

lemma first_found_blocked_output:
  "first_found BLOCKED_WORDS (c @ '' LIMIT '' @ str_int n) = first_found BLOCKED_WORDS c"
  by (rule first_found_cong, rule listed_word_output) simp

lemma first_found_system_strip:
  "first_found SYSTEM_TABLES (strip s) = first_found SYSTEM_TABLES s"
  by (rule first_found_cong, rule listed_word_strip) simp

lemma first_found_blocked_strip:
  "first_found BLOCKED_WORDS (strip s) = first_found BLOCKED_WORDS s"
  by (rule first_found_cong, rule listed_word_strip) simp

subsection \<open>strip once more\<close>

lemma dropWhile_id: "s = [] \<or> \<not> P (hd s) \<Longrightarrow> dropWhile P s = s"
  by (cases s) auto

lemma rstrip_id: "c = [] \<or> \<not> isspace (last c) \<Longrightarrow> rstrip c = c"
proof -
  assume "c = [] \<or> \<not> isspace (last c)"
  then have "rev c = [] \<or> \<not> isspace (hd (rev c))" by (auto simp: hd_rev)
  then have "dropWhile isspace (rev c) = rev c" by (rule dropWhile_id)
  then show ?thesis by (simp add: rstrip_def)
qed

lemma strip_id: "c \<noteq> [] \<Longrightarrow> \<not> isspace (hd c) \<Longrightarrow> \<not> isspace (last c) \<Longrightarrow> strip c = c"
  by (simp add: strip_def lstrip_def dropWhile_id rstrip_id)

lemma strip_ends:
  assumes "strip s \<noteq> []"
  shows "\<not> isspace (hd (strip s))" and "\<not> isspace (last (strip s))"
proof -
  let ?u = "dropWhile isspace s"
  have u: "?u = strip s @ rev (takeWhile isspace (rev ?u))"
    using rev_split [of ?u isspace] by (simp add: strip_def rstrip_def lstrip_def)
  then have "?u \<noteq> []" using assms by (metis Nil_is_append_conv)
  then have "\<not> isspace (hd ?u)" by (rule hd_dropWhile)
  moreover have "hd ?u = hd (strip s)" using u assms by (metis hd_append2)
  ultimately show "\<not> isspace (hd (strip s))" by simp
  have r: "dropWhile isspace (rev ?u) \<noteq> []" using assms by (simp add: strip_def rstrip_def lstrip_def)
  then have "\<not> isspace (hd (dropWhile isspace (rev ?u)))" by (rule hd_dropWhile)
  moreover have "last (strip s) = hd (dropWhile isspace (rev ?u))"
    using r by (simp add: strip_def rstrip_def lstrip_def last_rev)
  ultimately show "\<not> isspace (last (strip s))" by simp
qed

lemma strip_Nil: "strip [] = []"
  by (simp add: strip_def rstrip_def lstrip_def)

lemma strip_strip: "strip (strip s) = strip s"
proof (cases "strip s = []")
  case True
  then show ?thesis by (simp add: strip_Nil)
next
  case False
  then show ?thesis by (simp add: strip_id strip_ends)
qed

lemma rstrip_strip: "rstrip (strip s) = strip s"
  using strip_ends(2) [of s] by (intro rstrip_id) auto

subsection \<open>What the sanitizer returns\<close>

lemma sanitize_Inr_iff:
  "basic_sanitize_and_enforce sql n = Inr out \<longleftrightarrow>
     strip sql \<noteq> [] \<and> \<not> re_search SEMICOLON_RE (strip sql)
     \<and> first_found SYSTEM_TABLES (strip sql) = None
     \<and> first_found BLOCKED_WORDS (strip sql) = None
     \<and> (re_match SELECT_RE (strip sql) \<or> re_match WITH_RE (strip sql))
     \<and> out = (if re_search LIMIT_RE (strip sql) then strip sql
              else strip sql @ '' LIMIT '' @ str_int n)"
proof -
  show ?thesis
    by (auto simp: basic_sanitize_and_enforce_def Let_def rstrip_strip strip_Nil
             split: option.splits)
qed

lemma sanitize_accepts:
  "strip sql = c \<Longrightarrow> c \<noteq> [] \<Longrightarrow> \<not> search_from SEMICOLON_RE None c \<Longrightarrow>
   first_found SYSTEM_TABLES c = None \<Longrightarrow> first_found BLOCKED_WORDS c = None \<Longrightarrow>
   matches SELECT_RE None c \<or> matches WITH_RE None c \<Longrightarrow>
   basic_sanitize_and_enforce sql n =
     Inr (if search_from LIMIT_RE None c then c else c @ '' LIMIT '' @ str_int n)"
  by (auto simp: sanitize_Inr_iff re_search_def re_match_def)

lemma sanitize_not_select:
  "strip sql = c \<Longrightarrow> c \<noteq> [] \<Longrightarrow> \<not> search_from SEMICOLON_RE None c \<Longrightarrow>
   first_found SYSTEM_TABLES c = None \<Longrightarrow> first_found BLOCKED_WORDS c = None \<Longrightarrow>
   \<not> matches SELECT_RE None c \<Longrightarrow> \<not> matches WITH_RE None c \<Longrightarrow>
   basic_sanitize_and_enforce sql n = Inl (SQLSanitizerError ''Only SELECT queries are allowed.'')"
  by (auto simp: basic_sanitize_and_enforce_def re_search_def re_match_def strip_Nil)

lemma sanitize_blocked:
  "strip sql = c \<Longrightarrow> c \<noteq> [] \<Longrightarrow> \<not> search_from SEMICOLON_RE None c \<Longrightarrow>
   first_found SYSTEM_TABLES c = None \<Longrightarrow> first_found BLOCKED_WORDS c = Some w \<Longrightarrow>
   basic_sanitize_and_enforce sql n =
     Inl (SQLSanitizerError (''Disallowed SQL operation detected: '' @ word_src w))"
  by (auto simp: basic_sanitize_and_enforce_def re_search_def re_match_def strip_Nil)

subsection \<open>The accepted string with the clause appended\<close>

lemma semicolon_output:
  "CHR '';'' \<in> set (c @ '' LIMIT '' @ str_int n) \<longleftrightarrow> CHR '';'' \<in> set c"
proof -
  have "\<not> isdigit CHR '';''" by (simp add: char_tabs)
  then have "CHR '';'' \<notin> set (str_nat m)" for m
    using str_nat_digits [of m] by (auto simp: list_all_iff)
  then show ?thesis by (auto simp: str_int_def)
qed

lemma strip_output:
  assumes "c \<noteq> []" "\<not> isspace (hd c)"
  shows "strip (c @ '' LIMIT '' @ str_int n) = c @ '' LIMIT '' @ str_int n"
proof (rule strip_id)
  show "c @ '' LIMIT '' @ str_int n \<noteq> []" using assms by simp
  show "\<not> isspace (hd (c @ '' LIMIT '' @ str_int n))" using assms by simp
  have d: "\<not> isspace (last (str_nat m))" for m
  proof -
    have "last (str_nat m) \<in> set (str_nat m)" by (simp add: str_nat_nonempty)
    then have "isdigit (last (str_nat m))" using str_nat_digits [of m] by (simp add: list_all_iff)
    then show ?thesis using isdigit_isword isspace_not_isword by blast
  qed
  have "last (c @ '' LIMIT '' @ str_int n) = last (str_int n)"
    by (simp add: str_int_def str_nat_nonempty)
  also have "\<dots> = last (str_nat (nat \<bar>n\<bar>))"
    by (auto simp: str_int_def str_nat_nonempty abs_if)
  finally show "\<not> isspace (last (c @ '' LIMIT '' @ str_int n))" using d by simp
qed

lemma str_int_digits: "0 \<le> n \<Longrightarrow> str_int n \<noteq> [] \<and> list_all isdigit (str_int n)"
  by (simp add: str_int_def str_nat_nonempty str_nat_digits)

lemma match_output:
  "re_match pat c \<Longrightarrow> re_match pat (c @ '' LIMIT '' @ str_int n)"
  using matches_append_nonword [of pat None c "CHR '' ''" "''LIMIT '' @ str_int n"]
  by (simp add: re_match_def char_tabs)

subsection \<open>The limit pattern and white space at the ends\<close>

lemma at_boundary_trailing:
  "list_all isspace b \<Longrightarrow> at_boundary p (c @ b) = at_boundary p c"
  by (cases c; cases b) (auto simp: at_boundary_def isspace_not_isword)

lemma isspace_not_isdigit: "isspace x \<Longrightarrow> \<not> isdigit x"
  using isdigit_isword isspace_not_isword by blast

lemma digits_tail_trailing:
  "list_all isspace b \<Longrightarrow>
   matches [Star isdigit, WordB] p (c @ b) = matches [Star isdigit, WordB] p c"
proof (induction c arbitrary: p)
  case Nil
  then show ?case
    using at_boundary_trailing [of b p "[]"] by (cases b) (auto simp: isspace_not_isdigit)
next
  case (Cons y c)
  then show ?case using at_boundary_trailing [of b p "y # c"] by simp
qed

lemma digits_trailing:
  "list_all isspace b \<Longrightarrow>
   matches [Plus isdigit, WordB] p (c @ b) = matches [Plus isdigit, WordB] p c"
  by (cases c; cases b) (auto simp: isspace_not_isdigit digits_tail_trailing)

lemma spaces_digits_none:
  "list_all isspace b \<Longrightarrow> \<not> matches [Star isspace, Plus isdigit, WordB] p b"
  by (induction b arbitrary: p) (auto simp: isspace_not_isdigit)

lemma spaces_digits_tail_trailing:
  "list_all isspace b \<Longrightarrow>
   matches [Star isspace, Plus isdigit, WordB] p (c @ b) =
   matches [Star isspace, Plus isdigit, WordB] p c"
proof (induction c arbitrary: p)
  case Nil
  then show ?case using spaces_digits_none [of b p] by simp
next
  case (Cons y c)
  then show ?case using digits_trailing [of b p "y # c"] by simp
qed

lemma spaces_digits_trailing:
  "list_all isspace b \<Longrightarrow>
   matches [Plus isspace, Plus isdigit, WordB] p (c @ b) =
   matches [Plus isspace, Plus isdigit, WordB] p c"
proof (cases c)
  case Nil
  assume b: "list_all isspace b"
  show ?thesis
  proof (cases b)
    case (Cons x b')
    with b have "\<not> matches [Star isspace, Plus isdigit, WordB] (Some x) b'"
      by (intro spaces_digits_none) simp
    with Nil Cons show ?thesis by simp
  qed (use Nil in simp)
next
  case (Cons y c')
  assume "list_all isspace b"
  with Cons show ?thesis by (simp add: spaces_digits_tail_trailing)
qed

lemma lits_trailing:
  assumes "list_all isspace b" and "\<And>p c. matches rs p (c @ b) = matches rs p c"
  shows "list_all (\<lambda>k. \<not> isspace k) w \<Longrightarrow>
         matches (map Lit w @ rs) p (c @ b) = matches (map Lit w @ rs) p c"
proof (induction w arbitrary: p c)
  case Nil
  then show ?case using assms(2) by simp
next
  case (Cons k w)
  show ?case
  proof (cases c)
    case Nil
    show ?thesis
    proof (cases b)
      case (Cons x b')
      with assms(1) have "isspace x" by simp
      then have "lower x \<noteq> lower k" using Cons.prems lower_eq_isspace [of x k] by auto
      with Nil Cons show ?thesis by simp
    qed (use Nil in simp)
  next
    case (Cons y c')
    with Cons.IH [of "Some y" c'] Cons.prems show ?thesis by simp
  qed
qed

lemma LIMIT_RE_trailing:
  assumes "list_all isspace b"
  shows "matches LIMIT_RE p (c @ b) = matches LIMIT_RE p c"
proof -
  have "matches (map Lit ''LIMIT'' @ [Plus isspace, Plus isdigit, WordB]) p (c @ b) =
        matches (map Lit ''LIMIT'' @ [Plus isspace, Plus isdigit, WordB]) p c"
    using assms by (intro lits_trailing spaces_digits_trailing) (simp_all add: char_tabs)
  then show ?thesis
    using at_boundary_trailing [OF assms, of p c] by (simp add: LIMIT_RE_def)
qed

lemma LIMIT_RE_first:
  "matches LIMIT_RE p s \<Longrightarrow> s \<noteq> [] \<and> lower (hd s) = lower CHR ''L''"
  by (cases s) (simp_all add: LIMIT_RE_def)

lemma LIMIT_RE_spaces:
  "list_all isspace b \<Longrightarrow> \<not> search_from LIMIT_RE p b"
proof (induction b arbitrary: p)
  case Nil
  then show ?case by (simp add: LIMIT_RE_def)
next
  case (Cons x b)
  then have "lower x \<noteq> lower CHR ''L''"
    using lower_eq_isspace [of x "CHR ''L''"] by (auto simp: char_tabs)
  with Cons show ?case using LIMIT_RE_first [of p "x # b"] by auto
qed

lemma LIMIT_RE_search_trailing:
  "list_all isspace b \<Longrightarrow> search_from LIMIT_RE p (c @ b) = search_from LIMIT_RE p c"
proof (induction c arbitrary: p)
  case Nil
  then show ?case using LIMIT_RE_spaces [of b p] by (simp add: LIMIT_RE_def)
next
  case (Cons y c)
  then show ?case using LIMIT_RE_trailing [of b p "y # c"] by simp
qed

lemma LIMIT_RE_prev:
  "word_before p = word_before q \<Longrightarrow> search_from LIMIT_RE p s = search_from LIMIT_RE q s"
  by (cases s) (simp_all add: LIMIT_RE_def at_boundary_def)

lemma LIMIT_RE_search_leading:
  "list_all isspace a \<Longrightarrow> \<not> word_before p \<Longrightarrow>
   search_from LIMIT_RE p (a @ c) = search_from LIMIT_RE p c"
proof (induction a arbitrary: p)
  case Nil
  then show ?case by simp
next
  case (Cons x a)
  then have sx: "isspace x" by simp
  then have "lower x \<noteq> lower CHR ''L''"
    using lower_eq_isspace [of x "CHR ''L''"] by (auto simp: char_tabs)
  then have 1: "\<not> matches LIMIT_RE p (x # a @ c)" using LIMIT_RE_first [of p "x # a @ c"] by auto
  have 2: "search_from LIMIT_RE (Some x) (a @ c) = search_from LIMIT_RE (Some x) c"
    using Cons sx by (simp add: isspace_not_isword)
  have 3: "search_from LIMIT_RE (Some x) c = search_from LIMIT_RE p c"
    using Cons.prems(2) sx by (intro LIMIT_RE_prev) (simp add: isspace_not_isword)
  from 1 2 3 show ?case by simp
qed

lemma LIMIT_RE_strip: "re_search LIMIT_RE (strip s) = re_search LIMIT_RE s"
proof -
  obtain a b where s: "s = a @ strip s @ b" and a: "list_all isspace a" and b: "list_all isspace b"
    using strip_decomp by blast
  have "re_search LIMIT_RE s = search_from LIMIT_RE None (a @ strip s @ b)"
    using s by (simp add: re_search_def)
  also have "\<dots> = search_from LIMIT_RE None (strip s @ b)"
    using a by (intro LIMIT_RE_search_leading) simp_all
  also have "\<dots> = search_from LIMIT_RE None (strip s)"
    using b by (rule LIMIT_RE_search_trailing)
  finally show ?thesis by (simp add: re_search_def)
qed

subsection \<open>The start of an accepted string\<close>

lemma ci_prefix_Nil: "ci_prefix [] s"
  by (simp add: ci_prefix_def)

lemma ci_prefix_Cons_Nil: "\<not> ci_prefix (k # w) []"
  by (simp add: ci_prefix_def)

lemma ci_prefix_Cons_Cons: "ci_prefix (k # w) (x # xs) \<longleftrightarrow> lower x = lower k \<and> ci_prefix w xs"
  by (simp add: ci_prefix_def)

lemmas ci_prefix_simps = ci_prefix_Nil ci_prefix_Cons_Nil ci_prefix_Cons_Cons

lemma lits_word_prefix_aux:
  "list_all isword w \<Longrightarrow> (w = [] \<longrightarrow> word_before p) \<Longrightarrow>
   matches (map Lit w @ [WordB]) p s \<longleftrightarrow> word_prefix w s"
proof (induction w arbitrary: p s)
  case Nil
  then show ?case by (simp add: word_prefix_def ci_prefix_simps at_boundary_def)
next
  case (Cons k w)
  show ?case
  proof (cases s)
    case Nil
    then show ?thesis by (simp add: word_prefix_def ci_prefix_simps)
  next
    case (Cons x xs)
    show ?thesis
    proof (cases "lower x = lower k")
      case True
      then have "isword x" using Cons.prems lower_eq_isword [of x k] by simp
      then have "matches (map Lit w @ [WordB]) (Some x) xs \<longleftrightarrow> word_prefix w xs"
        using Cons.prems by (intro Cons.IH) simp_all
      with True Cons show ?thesis by (simp add: word_prefix_def ci_prefix_simps)
    next
      case False
      with Cons show ?thesis by (simp add: word_prefix_def ci_prefix_simps)
    qed
  qed
qed

lemma lits_word_prefix:
  "list_all isword w \<Longrightarrow> w \<noteq> [] \<Longrightarrow> matches (map Lit w @ [WordB]) p s \<longleftrightarrow> word_prefix w s"
  by (rule lits_word_prefix_aux) simp_all

lemma star_greedy:
  assumes A: "\<And>p q s. matches rs p s = matches rs q s"
    and B: "\<And>p x xs. P x \<Longrightarrow> \<not> matches rs p (x # xs)"
  shows "matches (Star P # rs) p s = matches rs p (dropWhile P s)"
proof (induction s arbitrary: p)
  case Nil
  then show ?case by simp
next
  case (Cons x xs)
  show ?case
  proof (cases "P x")
    case True
    then show ?thesis using B [of x p xs] Cons [of "Some x"] A [of "Some x" _ p] by simp
  next
    case False
    then show ?thesis by simp
  qed
qed

lemma word_prefix_first:
  "word_prefix (k # w) s \<Longrightarrow> s \<noteq> [] \<and> lower (hd s) = lower k"
  by (cases s) (simp_all add: word_prefix_def ci_prefix_simps)

lemma select_tail:
  "matches (Star isspace # map Lit ''SELECT'' @ [WordB]) p s =
   word_prefix ''SELECT'' (dropWhile isspace s)"
proof -
  have "matches (Star isspace # map Lit ''SELECT'' @ [WordB]) p s =
        matches (map Lit ''SELECT'' @ [WordB]) p (dropWhile isspace s)"
  proof (rule star_greedy)
    show "matches (map Lit ''SELECT'' @ [WordB]) p s = matches (map Lit ''SELECT'' @ [WordB]) q s"
      for p q s by (rule lits_ignore_prev) simp
    show "isspace x \<Longrightarrow> \<not> matches (map Lit ''SELECT'' @ [WordB]) p (x # xs)" for p x xs
      using lower_eq_isspace [of x "CHR ''S''"] by (auto simp: char_tabs)
  qed
  also have "\<dots> = word_prefix ''SELECT'' (dropWhile isspace s)"
    by (rule lits_word_prefix) (simp_all add: char_tabs)
  finally show ?thesis .
qed

lemma lower_paren: "lower CHR ''('' \<noteq> lower CHR ''S''"
  by (simp add: char_tabs)

lemma select_parens:
  "matches (Star (\<lambda>c. c = CHR ''('') # Star isspace # map Lit ''SELECT'' @ [WordB]) p s =
   select_head s"
proof -
  have "matches (Star (\<lambda>c. c = CHR ''('') # Star isspace # map Lit ''SELECT'' @ [WordB]) p s =
        matches (Star isspace # map Lit ''SELECT'' @ [WordB]) p (dropWhile (\<lambda>c. c = CHR ''('') s)"
  proof (rule star_greedy)
    show "matches (Star isspace # map Lit ''SELECT'' @ [WordB]) p s =
          matches (Star isspace # map Lit ''SELECT'' @ [WordB]) q s" for p q s
      by (simp only: select_tail)
    show "\<not> matches (Star isspace # map Lit ''SELECT'' @ [WordB]) p (x # xs)"
      if "x = CHR ''(''" for p x xs
    proof -
      have "dropWhile isspace (x # xs) = x # xs" using that by (simp add: char_tabs)
      then have "matches (Star isspace # map Lit ''SELECT'' @ [WordB]) p (x # xs) =
                 word_prefix ''SELECT'' (x # xs)"
        by (simp only: select_tail)
      moreover have "\<not> word_prefix ''SELECT'' (x # xs)"
        using that by (simp add: word_prefix_def ci_prefix_simps char_tabs)
      ultimately show ?thesis by simp
    qed
  qed
  then show ?thesis by (simp only: select_tail select_head_def)
qed

lemma SELECT_RE_trimmed:
  assumes "c = [] \<or> \<not> isspace (hd c)"
  shows "re_match SELECT_RE c = select_head c"
proof -
  let ?R = "Star (\<lambda>c. c = CHR ''('') # Star isspace # map Lit ''SELECT'' @ [WordB]"
  have "matches (Star isspace # ?R) None c = matches ?R None c"
    using assms by (cases c) simp_all
  then have "re_match SELECT_RE c = matches ?R None c"
    by (simp add: re_match_def SELECT_RE_def)
  then show ?thesis by (simp only: select_parens)
qed

lemma WITH_RE_trimmed:
  assumes "c = [] \<or> \<not> isspace (hd c)"
  shows "re_match WITH_RE c = with_head c"
proof -
  have "matches (Star isspace # map Lit ''WITH'' @ [WordB]) None c =
        matches (map Lit ''WITH'' @ [WordB]) None c"
    using assms by (cases c) simp_all
  also have "\<dots> = word_prefix ''WITH'' c"
    by (rule lits_word_prefix) (simp_all add: char_tabs)
  finally show ?thesis by (simp add: re_match_def WITH_RE_def with_head_def)
qed

lemma dropWhile_weaker:
  "(\<And>x. P x \<Longrightarrow> Q x) \<Longrightarrow> dropWhile Q (dropWhile P s) = dropWhile Q s"
  by (induction s) auto

lemma select_head_openers: "select_head s \<Longrightarrow> select_after_openers s"
proof -
  let ?Q = "\<lambda>c. c = CHR ''('' \<or> isspace c"
  let ?t = "dropWhile isspace (dropWhile (\<lambda>c. c = CHR ''('') s)"
  assume "select_head s"
  then have w: "word_prefix ''SELECT'' ?t" by (simp add: select_head_def)
  then have t: "?t \<noteq> []" and h: "lower (hd ?t) = lower CHR ''S''"
    using word_prefix_first [of "CHR ''S''" "''ELECT''" ?t] by simp_all
  have "\<not> isspace (hd ?t)" using h lower_eq_isspace [of "hd ?t" "CHR ''S''"] by (simp add: char_tabs)
  moreover have "hd ?t \<noteq> CHR ''(''" using h lower_paren by auto
  ultimately have "dropWhile ?Q ?t = ?t" using t by (intro dropWhile_id) simp
  moreover have "dropWhile ?Q ?t = dropWhile ?Q (dropWhile (\<lambda>c. c = CHR ''('') s)"
    by (rule dropWhile_weaker) simp
  moreover have "\<dots> = dropWhile ?Q s"
    by (rule dropWhile_weaker) simp
  ultimately show ?thesis using w by (simp add: select_after_openers_def)
qed

lemma select_head_begins: "select_head s \<Longrightarrow> begins_with_select s"
  using select_head_openers [of s]
  by (simp add: select_after_openers_def begins_with_select_def word_prefix_def)

lemma with_head_begins: "with_head s \<Longrightarrow> begins_with_with s"
  by (simp add: with_head_def begins_with_with_def word_prefix_def)

subsection \<open>Examples\<close>

lemma sanitize_select_1:
  "basic_sanitize_and_enforce ''SELECT 1'' 50 = Inr ''SELECT 1 LIMIT 50''"
  by (rule sanitize_accepts [where c = "''SELECT 1''", THEN trans])
     (simp_all del: matches.simps search_from.simps first_found.simps add: re_ev str_nat.simps)


subsection \<open>The accepted string passes the checks again\<close>

lemma accepted_output:
  assumes "basic_sanitize_and_enforce sql n = Inr out"
  shows "out \<noteq> []" and "strip out = out" and "\<not> re_search SEMICOLON_RE out"
    and "first_found SYSTEM_TABLES out = None" and "first_found BLOCKED_WORDS out = None"
    and "re_match SELECT_RE out \<or> re_match WITH_RE out"
    and "0 \<le> n \<Longrightarrow> re_search LIMIT_RE out"
proof -
  let ?c = "strip sql"
  from assms have c: "?c \<noteq> []" and semi: "CHR '';'' \<notin> set ?c"
    and sys: "first_found SYSTEM_TABLES ?c = None" and blk: "first_found BLOCKED_WORDS ?c = None"
    and sel: "re_match SELECT_RE ?c \<or> re_match WITH_RE ?c"
    and out: "out = (if re_search LIMIT_RE ?c then ?c else ?c @ '' LIMIT '' @ str_int n)"
    by (simp_all add: sanitize_Inr_iff re_search_SEMICOLON)
  have hd: "\<not> isspace (hd ?c)" using c by (rule strip_ends)
  define a where "a = ?c @ '' LIMIT '' @ str_int n"
  have out': "out = ?c \<or> out = a" using out by (simp add: a_def)
  have a1: "strip a = a" unfolding a_def using c hd by (rule strip_output)
  have a2: "\<not> re_search SEMICOLON_RE a"
    unfolding a_def re_search_SEMICOLON semicolon_output using semi .
  have a3: "first_found SYSTEM_TABLES a = None"
    unfolding a_def first_found_system_output using sys .
  have a4: "first_found BLOCKED_WORDS a = None"
    unfolding a_def first_found_blocked_output using blk .
  have a5: "re_match SELECT_RE a \<or> re_match WITH_RE a"
    unfolding a_def using sel match_output [of _ ?c n] by blast
  have a6: "re_search LIMIT_RE a" if "0 \<le> n"
    unfolding a_def using str_int_digits [OF that] by (intro limit_search_appended) simp_all
  show "out \<noteq> []" using out' c by (auto simp: a_def)
  show "strip out = out" using out' a1 by (auto simp: strip_strip)
  show "\<not> re_search SEMICOLON_RE out" using out' a2 semi by (auto simp: re_search_SEMICOLON)
  show "first_found SYSTEM_TABLES out = None" using out' a3 sys by auto
  show "first_found BLOCKED_WORDS out = None" using out' a4 blk by auto
  show "re_match SELECT_RE out \<or> re_match WITH_RE out" using out' a5 sel by auto
  show "re_search LIMIT_RE out" if "0 \<le> n"
    using out a6 [OF that] by (auto simp: a_def split: if_splits)
qed

subsection \<open>Searching is matching at some position\<close>

lemma last_char_Nil: "last_char p [] = p"
  by (simp add: last_char_def)

lemma last_char_Cons: "last_char p (x # c) = last_char (Some x) c"
  by (simp add: last_char_def)

lemma search_from_iff:
  "search_from pat p s \<longleftrightarrow> (\<exists>i\<le>length s. matches pat (last_char p (take i s)) (drop i s))"
proof (induction s arbitrary: p)
  case Nil
  then show ?case by (simp add: last_char_Nil last_char_Cons)
next
  case (Cons x xs)
  have "(\<exists>i\<le>length (x # xs). matches pat (last_char p (take i (x # xs))) (drop i (x # xs))) \<longleftrightarrow>
        matches pat p (x # xs) \<or>
        (\<exists>j\<le>length xs. matches pat (last_char (Some x) (take j xs)) (drop j xs))"
    (is "?L \<longleftrightarrow> ?A \<or> ?B")
  proof
    assume ?L
    then obtain i where i: "i \<le> length (x # xs)"
      "matches pat (last_char p (take i (x # xs))) (drop i (x # xs))" by blast
    show "?A \<or> ?B"
    proof (cases i)
      case 0
      with i show ?thesis by (simp add: last_char_Nil last_char_Cons)
    next
      case (Suc j)
      with i have "j \<le> length xs" "matches pat (last_char (Some x) (take j xs)) (drop j xs)"
        by (simp_all add: last_char_Nil last_char_Cons)
      then show ?thesis by blast
    qed
  next
    assume "?A \<or> ?B"
    then show ?L
    proof
      assume ?A
      then have "matches pat (last_char p (take 0 (x # xs))) (drop 0 (x # xs))"
        by (simp add: last_char_Nil last_char_Cons)
      then show ?L by blast
    next
      assume ?B
      then obtain j where j: "j \<le> length xs"
        "matches pat (last_char (Some x) (take j xs)) (drop j xs)" by blast
      then have "Suc j \<le> length (x # xs)"
        "matches pat (last_char p (take (Suc j) (x # xs))) (drop (Suc j) (x # xs))"
        by (simp_all add: last_char_Nil last_char_Cons)
      then show ?L by blast
    qed
  qed
  with Cons show ?case by simp
qed

lemma word_re_whole_word:
  assumes "list_all isword w" "w \<noteq> []"
  shows "matches (word_re w) p t \<longleftrightarrow> \<not> word_before p \<and> word_prefix w t"
proof -
  obtain k w' where w: "w = k # w'" using assms(2) by (cases w) auto
  have m: "matches (map Lit w @ [WordB]) p t \<longleftrightarrow> word_prefix w t"
    using assms by (rule lits_word_prefix)
  have "word_after t" if "word_prefix w t"
  proof -
    from that have "t \<noteq> []" "lower (hd t) = lower k"
      using word_prefix_first [of k w' t] w by simp_all
    moreover have "isword k" using assms(1) w by simp
    ultimately show ?thesis using lower_eq_isword [of "hd t" k] by (cases t) simp_all
  qed
  then show ?thesis using m by (auto simp: word_re_def at_boundary_def)
qed

lemma contains_word_iff:
  assumes "list_all isword w" "w \<noteq> []"
  shows "contains_word w s = re_search (word_re w) s"
proof -
  have "contains_word w s \<longleftrightarrow> (\<exists>i\<le>length s. whole_word_at w s i)"
    unfolding contains_word_def list_ex_iff by (auto simp del: upt_Suc simp: less_Suc_eq_le)
  also have "\<dots> \<longleftrightarrow> (\<exists>i\<le>length s. matches (word_re w) (last_char None (take i s)) (drop i s))"
    by (simp add: whole_word_at_def word_re_whole_word [OF assms])
  also have "\<dots> \<longleftrightarrow> re_search (word_re w) s"
    by (simp add: re_search_def search_from_iff)
  finally show ?thesis .
qed

lemma listed_contains_word:
  assumes "w \<in> set (SYSTEM_TABLES @ BLOCKED_WORDS)"
  shows "contains_word w s = re_search (word_re w) s"
proof -
  from assms listed_words have "w \<noteq> [] \<and> list_all isword w"
    unfolding list_all_iff by blast
  then show ?thesis by (simp add: contains_word_iff)
qed

lemma find_cong_set: "(\<And>x. x \<in> set xs \<Longrightarrow> P x = Q x) \<Longrightarrow> List.find P xs = List.find Q xs"
  by (induction xs) simp_all

lemma first_found_system_contains:
  "first_found SYSTEM_TABLES s = List.find (\<lambda>w. contains_word w s) SYSTEM_TABLES"
  unfolding first_found_find by (rule find_cong_set) (simp add: listed_contains_word)

lemma first_found_blocked_contains:
  "first_found BLOCKED_WORDS s = List.find (\<lambda>w. contains_word w s) BLOCKED_WORDS"
  unfolding first_found_find by (rule find_cong_set) (simp add: listed_contains_word)

lemma find_None_ball: "List.find P xs = None \<longleftrightarrow> (\<forall>x\<in>set xs. \<not> P x)"
  by (induction xs) simp_all

lemma word_search_nonempty: "w \<noteq> [] \<Longrightarrow> re_search (word_re w) s \<Longrightarrow> s \<noteq> []"
  by (cases w) (auto simp: re_search_def word_re_def)

subsection \<open>More examples\<close>

lemma sanitize_update_set:
  "basic_sanitize_and_enforce ''Update t set a'' 5 =
     Inl (SQLSanitizerError (''Disallowed SQL operation detected: '' @ word_src ''UPDATE''))"
  by (rule sanitize_blocked [where c = "''Update t set a''"])
     (simp_all del: matches.simps search_from.simps first_found.simps add: re_ev)

lemma sanitize_select_reset:
  "basic_sanitize_and_enforce ''SELECT reset'' 5 = Inr ''SELECT reset LIMIT 5''"
  by (rule sanitize_accepts [where c = "''SELECT reset''", THEN trans])
     (simp_all del: matches.simps search_from.simps first_found.simps add: re_ev str_nat.simps)

lemma sanitize_nested_parens:
  "basic_sanitize_and_enforce ''( (SELECT 1))'' 5 =
     Inl (SQLSanitizerError ''Only SELECT queries are allowed.'')"
  by (rule sanitize_not_select [where c = "''( (SELECT 1))''"])
     (simp_all del: matches.simps search_from.simps first_found.simps add: re_ev)

lemma sanitize_selected:
  "basic_sanitize_and_enforce ''SELECTED'' 5 =
     Inl (SQLSanitizerError ''Only SELECT queries are allowed.'')"
  by (rule sanitize_not_select [where c = "''SELECTED''"])
     (simp_all del: matches.simps search_from.simps first_found.simps add: re_ev)

lemma sanitize_within:
  "basic_sanitize_and_enforce ''WITHIN'' 5 =
     Inl (SQLSanitizerError ''Only SELECT queries are allowed.'')"
  by (rule sanitize_not_select [where c = "''WITHIN''"])
     (simp_all del: matches.simps search_from.simps first_found.simps add: re_ev)

lemma sanitize_paren_select:
  "basic_sanitize_and_enforce ''( select 1)'' 5 = Inr ''( select 1) LIMIT 5''"
  by (rule sanitize_accepts [where c = "''( select 1)''", THEN trans])
     (simp_all del: matches.simps search_from.simps first_found.simps add: re_ev str_nat.simps)

lemma blocked_trimmed_contains:
  "first_found BLOCKED_WORDS (strip s) = List.find (\<lambda>w. contains_word w s) BLOCKED_WORDS"
  unfolding first_found_blocked_strip by (rule first_found_blocked_contains)

lemma system_trimmed_contains:
  "first_found SYSTEM_TABLES (strip s) = List.find (\<lambda>w. contains_word w s) SYSTEM_TABLES"
  unfolding first_found_system_strip by (rule first_found_system_contains)

subsection \<open>Examples for the executor and the view\<close>

lemma sanitize_select_1_two:
  "basic_sanitize_and_enforce ''SELECT 1'' 2 = Inr ''SELECT 1 LIMIT 2''"
  by (rule sanitize_accepts [where c = "''SELECT 1''", THEN trans])
     (simp_all del: matches.simps search_from.simps first_found.simps add: re_ev str_nat.simps)

lemma sanitize_limit_3:
  "basic_sanitize_and_enforce ''SELECT x FROM t LIMIT 3'' n = Inr ''SELECT x FROM t LIMIT 3''"
  by (rule sanitize_accepts [where c = "''SELECT x FROM t LIMIT 3''", THEN trans])
     (simp_all del: matches.simps search_from.simps first_found.simps add: re_ev)

lemma str_int_1000: "str_int 1000 = ''1000''"
  by (simp add: str_int_def str_nat.simps digit_char_tab)

lemma nl_to_sql_demo:
  "strip answer = answer \<Longrightarrow> \<not> startswith answer [CHR 0x60, CHR 0x60, CHR 0x60] \<Longrightarrow>
   nl_to_sql (demo_env answer) q hint = Inr answer"
  by (simp add: nl_to_sql_def demo_env_def)



subsection \<open>The writes of the view to the log table\<close>






lemma demo_env_fields:
  "save_error (demo_env answer) i = None" "cursor_execute (demo_env answer) = three_rows"
  "runtime (demo_env answer) = 0" "pd_is_none (demo_env answer) = False"
  "to_csv (demo_env answer) rs = Inr []"
  by (simp_all add: demo_env_def)





text \<open>When the rendering raises, the status \<open>success\<close> is already saved and the handler
  saves \<open>error\<close> over it.\<close>

lemma post_failed_rendering:
  "statuses (writes (post ((demo_env ''SELECT 1'')\<lparr>to_csv := (\<lambda>rows. Inl ''failed'')\<rparr>)
                       ((demo_request None 50)\<lparr>format := Some ''dataframe_csv''\<rparr>))) =
     [''running'', ''running'', ''success'', ''error'']"
proof -
  let ?env = "(demo_env ''SELECT 1'')\<lparr>to_csv := (\<lambda>rows. Inl ''failed'')\<rparr>"
  have "nl_to_sql (demo_env ''SELECT 1'') ''q'' [] = Inr ''SELECT 1''"
    by (rule nl_to_sql_demo) (simp_all add: strip_def lstrip_def rstrip_def startswith_def char_tabs)
  then have n: "nl_to_sql ?env ''q'' [] = Inr ''SELECT 1''"
    by (simp add: nl_to_sql_def)
  show ?thesis
    by (simp add: post_def on_exception_def demo_request_def sanitize_select_1 n
          demo_env_fields three_rows_def statuses_def Let_def)
qed

text \<open>When the \<open>save\<close> in the handler raises too, the row stays \<open>running\<close> and no response
  is returned.\<close>

lemma post_failed_save:
  "statuses (writes (post ((demo_env ''DROP'')\<lparr>save_error := (\<lambda>i. if i = 2 then Some ''down'' else None)\<rparr>)
                       (demo_request None 50))) = [''running'', ''running'']
   \<and> response (post ((demo_env ''DROP'')\<lparr>save_error := (\<lambda>i. if i = 2 then Some ''down'' else None)\<rparr>)
                       (demo_request None 50)) = Inl ''down''"
proof -
  let ?env = "(demo_env ''DROP'')\<lparr>save_error := (\<lambda>i. if i = 2 then Some ''down'' else None)\<rparr>"
  have "nl_to_sql (demo_env ''DROP'') ''q'' [] = Inr ''DROP''"
    by (rule nl_to_sql_demo) (simp_all add: strip_def lstrip_def rstrip_def startswith_def char_tabs)
  then have n: "nl_to_sql ?env ''q'' [] = Inr ''DROP''"
    by (simp add: nl_to_sql_def)
  have s: "basic_sanitize_and_enforce ''DROP'' 50 =
     Inl (SQLSanitizerError (''Disallowed SQL operation detected: '' @ word_src ''DROP''))"
    by (rule sanitize_blocked [where c = "''DROP''"])
       (simp_all del: matches.simps search_from.simps first_found.simps add: re_ev)
  show ?thesis
    by (simp add: post_def demo_request_def s n demo_env_fields statuses_def Let_def)
qed

lemma post_schema_irrelevant: "post env (d\<lparr>schema := s\<rparr>) = post env d"
  by (simp add: post_def nl_to_sql_def Let_def cong: sum.case_cong option.case_cong)

section \<open>The claims\<close>

text \<open>C1. Every input with a semicolon anywhere in it is rejected with the
  multiple-statements message, whatever comes before or after the semicolon: the check
  comes before the scan for system catalogs and blocked keywords, so an input with a
  semicolon and a blocked keyword is rejected for the semicolon.\<close>

theorem C1_semicolon_rejected:
  "CHR '';'' \<in> set sql \<Longrightarrow>
   basic_sanitize_and_enforce sql n =
     Inl (SQLSanitizerError ''Multiple statements or semicolons not allowed.'')"
proof -
  assume a: "CHR '';'' \<in> set sql"
  then have s: "CHR '';'' \<in> set (strip sql)"
    by (simp add: in_set_strip not_isspace_semicolon)
  then have "strip sql \<noteq> []" and "sql \<noteq> []" using a by auto
  with s show ?thesis
    by (simp add: basic_sanitize_and_enforce_def re_search_SEMICOLON)
qed

theorem C1_semicolon_rejected_witness:
  "CHR '';'' \<in> set ''select 1; DROP TABLE t'' \<and>
   basic_sanitize_and_enforce ''select 1; DROP TABLE t'' 1000 =
     Inl (SQLSanitizerError ''Multiple statements or semicolons not allowed.'')"
  using C1_semicolon_rejected [of "''select 1; DROP TABLE t''" 1000] by simp




text \<open>C2. Every string the sanitizer returns has no semicolon, has none of the blocked
  keywords and neither system catalog name as a whole word in any letter case, begins
  with \<open>SELECT\<close> after leading parentheses and white space or begins with \<open>WITH\<close>,
  and has a limit clause: one that \<open>LIMIT_RE\<close> finds, or the appended
  \<open>" LIMIT <max_rows>"\<close> at its end. When \<open>max_rows\<close> is not negative \<open>LIMIT_RE\<close>
  finds a clause in it in both cases. The clause is the one of the input or the
  appended one: either the input has a clause that \<open>LIMIT_RE\<close> finds and the string
  returned is the trimmed input, or the input has none and the string returned is the
  trimmed input followed by \<open>" LIMIT <max_rows>"\<close>.\<close>

theorem C2_sanitized_query:
  assumes "basic_sanitize_and_enforce sql n = Inr out"
  shows "CHR '';'' \<notin> set out
       \<and> (\<forall>w\<in>set BLOCKED_WORDS. \<not> contains_word w out)
       \<and> (\<forall>w\<in>set SYSTEM_TABLES. \<not> contains_word w out)
       \<and> (begins_with_select out \<or> begins_with_with out)
       \<and> (re_search LIMIT_RE out \<or> endswith out ('' LIMIT '' @ str_int n))
       \<and> (0 \<le> n \<longrightarrow> re_search LIMIT_RE out)
       \<and> (re_search LIMIT_RE sql \<and> re_search LIMIT_RE out \<and> out = strip sql
          \<or> \<not> re_search LIMIT_RE sql \<and> out = strip sql @ '' LIMIT '' @ str_int n)"
proof -
  note o = accepted_output [OF assms]
  have 1: "CHR '';'' \<notin> set out" using o(3) by (simp add: re_search_SEMICOLON)
  have 2: "\<forall>w\<in>set BLOCKED_WORDS. \<not> contains_word w out"
    using o(5) by (simp add: first_found_blocked_contains find_None_ball)
  have 3: "\<forall>w\<in>set SYSTEM_TABLES. \<not> contains_word w out"
    using o(4) by (simp add: first_found_system_contains find_None_ball)
  have "\<not> isspace (hd out)" using strip_ends(1) [of out] o(1,2) by simp
  then have "select_head out \<or> with_head out"
    using o(6) by (simp add: SELECT_RE_trimmed WITH_RE_trimmed)
  then have 4: "begins_with_select out \<or> begins_with_with out"
    using select_head_begins with_head_begins by blast
  have 5: "re_search LIMIT_RE out \<or> endswith out ('' LIMIT '' @ str_int n)"
    using assms by (auto simp: sanitize_Inr_iff endswith_def)
  have 6: "re_search LIMIT_RE sql \<and> re_search LIMIT_RE out \<and> out = strip sql
          \<or> \<not> re_search LIMIT_RE sql \<and> out = strip sql @ '' LIMIT '' @ str_int n"
    using assms by (auto simp: sanitize_Inr_iff LIMIT_RE_strip)
  from 1 2 3 4 5 6 o(7) show ?thesis by blast
qed

theorem C2_sanitized_query_witness:
  "basic_sanitize_and_enforce ''SELECT 1'' 50 = Inr ''SELECT 1 LIMIT 50'' \<and>
   CHR '';'' \<notin> set ''SELECT 1 LIMIT 50'' \<and>
   \<not> contains_word ''DROP'' ''SELECT 1 LIMIT 50'' \<and>
   \<not> contains_word ''pg_catalog'' ''SELECT 1 LIMIT 50'' \<and>
   begins_with_select ''SELECT 1 LIMIT 50'' \<and>
   re_search LIMIT_RE ''SELECT 1 LIMIT 50'' \<and>
   \<not> re_search LIMIT_RE ''SELECT 1'' \<and>
   ''SELECT 1 LIMIT 50'' = strip ''SELECT 1'' @ '' LIMIT '' @ str_int 50"
proof -
  have b: "begins_with_select ''SELECT 1 LIMIT 50''"
    by (simp add: begins_with_select_def ci_prefix_def char_tabs)
  have l: "\<not> re_search LIMIT_RE ''SELECT 1''"
    by (simp del: matches.simps search_from.simps add: re_search_def re_ev)
  note t = C2_sanitized_query [OF sanitize_select_1]
  from t have 1: "CHR '';'' \<notin> set ''SELECT 1 LIMIT 50''" by blast
  from t have "\<forall>w\<in>set BLOCKED_WORDS. \<not> contains_word w ''SELECT 1 LIMIT 50''" by blast
  then have 2: "\<not> contains_word ''DROP'' ''SELECT 1 LIMIT 50''"
    by (simp add: BLOCKED_WORDS_def)
  from t have "\<forall>w\<in>set SYSTEM_TABLES. \<not> contains_word w ''SELECT 1 LIMIT 50''" by blast
  then have 3: "\<not> contains_word ''pg_catalog'' ''SELECT 1 LIMIT 50''"
    by (simp add: SYSTEM_TABLES_def)
  from t have "(0::int) \<le> 50 \<longrightarrow> re_search LIMIT_RE ''SELECT 1 LIMIT 50''" by blast
  then have 4: "re_search LIMIT_RE ''SELECT 1 LIMIT 50''" by simp
  from t l have 5: "''SELECT 1 LIMIT 50'' = strip ''SELECT 1'' @ '' LIMIT '' @ str_int 50"
    by blast
  from sanitize_select_1 1 2 3 b 4 l 5 show ?thesis by blast
qed

text \<open>C8. The sanitizer is idempotent: applied to a string it returned, with the same
  \<open>max_rows\<close>, it accepts and returns that string unchanged, a limit clause that
  \<open>LIMIT_RE\<close> finds being present after the first application. \<open>max_rows\<close> is a row
  count: the serializer admits 1 to 1000 and the default is 1000; the proof uses only
  that it is not negative, so that the appended \<open>str(max_rows)\<close> is a run of digits.\<close>

theorem C8_idempotent:
  assumes "0 \<le> n" and "basic_sanitize_and_enforce sql n = Inr out"
  shows "basic_sanitize_and_enforce out n = Inr out"
  using accepted_output [OF assms(2)] assms(1) by (simp add: sanitize_Inr_iff)

theorem C8_idempotent_witness:
  "(0::int) \<le> 50 \<and> basic_sanitize_and_enforce ''SELECT 1'' 50 = Inr ''SELECT 1 LIMIT 50'' \<and>
   basic_sanitize_and_enforce ''SELECT 1 LIMIT 50'' 50 = Inr ''SELECT 1 LIMIT 50''"
  using C8_idempotent [OF _ sanitize_select_1] sanitize_select_1 by simp

text \<open>C3. An input without a semicolon and without a system catalog name, in which a
  blocked keyword occurs as a whole word in any letter case, is rejected with the
  blocked-keyword message, and the message carries the entry of \<open>BLOCKED_TOKENS\<close> for
  the first keyword of \<open>BLOCKED_WORDS\<close>, in the declared order, that occurs in the input.
  (Such an input is not blank, so the emptiness check passes.) An input in which no
  blocked keyword occurs as a whole word, whatever longer words contain one, is never
  rejected with the blocked-keyword message.\<close>

theorem C3_blocked_keyword:
  "(CHR '';'' \<notin> set sql \<and> (\<forall>t\<in>set SYSTEM_TABLES. \<not> contains_word t sql)
      \<and> List.find (\<lambda>w. contains_word w sql) BLOCKED_WORDS = Some k
    \<longrightarrow> basic_sanitize_and_enforce sql n =
          Inl (SQLSanitizerError (''Disallowed SQL operation detected: '' @ word_src k))
        \<and> word_src k \<in> set BLOCKED_TOKENS)
   \<and> ((\<forall>w\<in>set BLOCKED_WORDS. \<not> contains_word w sql)
    \<longrightarrow> basic_sanitize_and_enforce sql n \<noteq>
          Inl (SQLSanitizerError (''Disallowed SQL operation detected: '' @ tok)))"
proof (intro conjI impI)
  assume a: "CHR '';'' \<notin> set sql \<and> (\<forall>t\<in>set SYSTEM_TABLES. \<not> contains_word t sql)
      \<and> List.find (\<lambda>w. contains_word w sql) BLOCKED_WORDS = Some k"
  then have blk: "first_found BLOCKED_WORDS (strip sql) = Some k"
    by (simp add: blocked_trimmed_contains)
  from a have sys: "first_found SYSTEM_TABLES (strip sql) = None"
    by (simp add: system_trimmed_contains find_None_ball)
  from a have semi: "\<not> search_from SEMICOLON_RE None (strip sql)"
    using set_strip_subset [of sql] re_search_SEMICOLON [of "strip sql"]
    by (auto simp: re_search_def)
  from blk have k: "k \<in> set BLOCKED_WORDS" "re_search (word_re k) (strip sql)"
    by (auto simp: first_found_find find_Some_iff)
  then have "k \<noteq> []" using listed_words unfolding list_all_iff by auto
  then have ne: "strip sql \<noteq> []" using k(2) by (rule word_search_nonempty)
  show "basic_sanitize_and_enforce sql n =
          Inl (SQLSanitizerError (''Disallowed SQL operation detected: '' @ word_src k))"
    using ne semi sys blk by (intro sanitize_blocked [where c = "strip sql"]) simp_all
  show "word_src k \<in> set BLOCKED_TOKENS" using k(1) by (simp add: BLOCKED_TOKENS_def)
next
  assume "\<forall>w\<in>set BLOCKED_WORDS. \<not> contains_word w sql"
  then have "first_found BLOCKED_WORDS (strip sql) = None"
    by (simp add: blocked_trimmed_contains find_None_ball)
  then show "basic_sanitize_and_enforce sql n \<noteq>
          Inl (SQLSanitizerError (''Disallowed SQL operation detected: '' @ tok))"
    by (simp add: basic_sanitize_and_enforce_def Let_def)
qed

theorem C3_blocked_keyword_witness:
  "CHR '';'' \<notin> set ''Update t set a'' \<and>
   List.find (\<lambda>w. contains_word w ''Update t set a'') SYSTEM_TABLES = None \<and>
   List.find (\<lambda>w. contains_word w ''Update t set a'') BLOCKED_WORDS = Some ''UPDATE'' \<and>
   basic_sanitize_and_enforce ''Update t set a'' 5 =
     Inl (SQLSanitizerError (''Disallowed SQL operation detected: '' @ word_src ''UPDATE'')) \<and>
   List.find (\<lambda>w. contains_word w ''SELECT reset'') BLOCKED_WORDS = None \<and>
   basic_sanitize_and_enforce ''SELECT reset'' 5 = Inr ''SELECT reset LIMIT 5''"
proof -
  have 1: "CHR '';'' \<notin> set ''Update t set a''" by simp
  have 2: "List.find (\<lambda>w. contains_word w ''Update t set a'') SYSTEM_TABLES = None"
    unfolding system_trimmed_contains [symmetric]
    by (simp del: matches.simps search_from.simps first_found.simps add: re_ev)
  have 3: "List.find (\<lambda>w. contains_word w ''Update t set a'') BLOCKED_WORDS = Some ''UPDATE''"
    unfolding blocked_trimmed_contains [symmetric]
    by (simp del: matches.simps search_from.simps first_found.simps add: re_ev)
  have 4: "List.find (\<lambda>w. contains_word w ''SELECT reset'') BLOCKED_WORDS = None"
    unfolding blocked_trimmed_contains [symmetric]
    by (simp del: matches.simps search_from.simps first_found.simps add: re_ev)
  from 2 have sys: "\<forall>t\<in>set SYSTEM_TABLES. \<not> contains_word t ''Update t set a''"
    by (simp only: find_None_ball)
  have 5: "basic_sanitize_and_enforce ''Update t set a'' 5 =
     Inl (SQLSanitizerError (''Disallowed SQL operation detected: '' @ word_src ''UPDATE''))"
    using C3_blocked_keyword [of "''Update t set a''" "''UPDATE''" 5 "[]"] 1 sys 3 by blast
  from 1 2 3 4 5 sanitize_select_reset show ?thesis by blast
qed

text \<open>C4, as stated, fails: \<open>SELECTED\<close> begins with \<open>SELECT\<close> and \<open>WITHIN\<close> begins with
  \<open>WITH\<close>, yet both are rejected with the not-a-select message. The two patterns end in
  a word boundary: \<open>SELECT\<close> and \<open>WITH\<close> count only as whole words.\<close>

theorem C4_claimed_start_rejected:
  "begins_with_select (strip ''SELECTED'') \<and>
   basic_sanitize_and_enforce ''SELECTED'' 5 =
     Inl (SQLSanitizerError ''Only SELECT queries are allowed.'') \<and>
   begins_with_with (strip ''WITHIN'') \<and>
   basic_sanitize_and_enforce ''WITHIN'' 5 =
     Inl (SQLSanitizerError ''Only SELECT queries are allowed.'')"
proof -
  have "begins_with_select (strip ''SELECTED'')" "begins_with_with (strip ''WITHIN'')"
    by (simp_all add: begins_with_select_def begins_with_with_def ci_prefix_def strip_def
          lstrip_def rstrip_def char_tabs)
  then show ?thesis using sanitize_selected sanitize_within by blast
qed

text \<open>C4, amended. Take an input that passes the checks for emptiness, semicolons, system
  catalogs and blocked keywords. If its trimmed string, after its leading opening
  parentheses and white space in any order, does not go on with \<open>SELECT\<close> as a whole
  word (in any letter case), and does not begin with \<open>WITH\<close> as a whole word (in any
  letter case), the sanitizer rejects it with the not-a-select message. If its trimmed
  string is opening parentheses, then white space, then \<open>SELECT\<close> as a whole word and
  whatever follows, or begins with \<open>WITH\<close> as a whole word, the sanitizer does not reject
  it with that message. Nothing is said of a trimmed string in which white space
  stands before or between the leading parentheses that come before \<open>SELECT\<close>: the
  docstring of the module and the comment of the check allow leading white space and
  parentheses, while \<open>SELECT_RE\<close> takes the parentheses first and the white space after
  them, so that \<open>( (SELECT 1))\<close> is rejected (\<open>sanitize_nested_parens\<close>).\<close>

theorem C4_select_or_with:
  assumes "strip sql \<noteq> []" and "CHR '';'' \<notin> set sql"
    and "\<forall>t\<in>set SYSTEM_TABLES. \<not> contains_word t sql"
    and "\<forall>w\<in>set BLOCKED_WORDS. \<not> contains_word w sql"
  shows "(\<not> select_after_openers (strip sql) \<and> \<not> with_head (strip sql)
            \<longrightarrow> basic_sanitize_and_enforce sql n =
                  Inl (SQLSanitizerError ''Only SELECT queries are allowed.''))
       \<and> (select_head (strip sql) \<or> with_head (strip sql)
            \<longrightarrow> basic_sanitize_and_enforce sql n \<noteq>
                  Inl (SQLSanitizerError ''Only SELECT queries are allowed.''))"
proof -
  let ?c = "strip sql"
  have semi: "\<not> re_search SEMICOLON_RE ?c"
    using assms(2) set_strip_subset [of sql] by (auto simp: re_search_SEMICOLON)
  have sys: "first_found SYSTEM_TABLES ?c = None"
    using assms(3) by (simp add: system_trimmed_contains find_None_ball)
  have blk: "first_found BLOCKED_WORDS ?c = None"
    using assms(4) by (simp add: blocked_trimmed_contains find_None_ball)
  have "\<not> isspace (hd ?c)" using assms(1) by (rule strip_ends)
  then have m: "re_match SELECT_RE ?c = select_head ?c" "re_match WITH_RE ?c = with_head ?c"
    by (simp_all add: SELECT_RE_trimmed WITH_RE_trimmed)
  have iff: "basic_sanitize_and_enforce sql n =
           Inl (SQLSanitizerError ''Only SELECT queries are allowed.'')
         \<longleftrightarrow> \<not> (select_head ?c \<or> with_head ?c)"
    using assms(1) semi sys blk unfolding m [symmetric]
    by (auto simp: basic_sanitize_and_enforce_def Let_def strip_Nil)
  show ?thesis using iff select_head_openers [of ?c] by blast
qed

theorem C4_select_or_with_witness:
  "strip ''( select 1)'' \<noteq> [] \<and> CHR '';'' \<notin> set ''( select 1)'' \<and>
   List.find (\<lambda>w. contains_word w ''( select 1)'') SYSTEM_TABLES = None \<and>
   List.find (\<lambda>w. contains_word w ''( select 1)'') BLOCKED_WORDS = None \<and>
   select_head (strip ''( select 1)'') \<and>
   basic_sanitize_and_enforce ''( select 1)'' 5 \<noteq>
     Inl (SQLSanitizerError ''Only SELECT queries are allowed.'') \<and>
   strip ''SELECTED'' \<noteq> [] \<and> CHR '';'' \<notin> set ''SELECTED'' \<and>
   List.find (\<lambda>w. contains_word w ''SELECTED'') SYSTEM_TABLES = None \<and>
   List.find (\<lambda>w. contains_word w ''SELECTED'') BLOCKED_WORDS = None \<and>
   \<not> select_after_openers (strip ''SELECTED'') \<and> \<not> with_head (strip ''SELECTED'') \<and>
   basic_sanitize_and_enforce ''SELECTED'' 5 =
     Inl (SQLSanitizerError ''Only SELECT queries are allowed.'')"
proof -
  have 0: "strip ''( select 1)'' = ''( select 1)''"
    by (simp add: strip_def lstrip_def rstrip_def char_tabs)
  have 1: "CHR '';'' \<notin> set ''( select 1)''" by simp
  have 2: "List.find (\<lambda>w. contains_word w ''( select 1)'') SYSTEM_TABLES = None"
    unfolding system_trimmed_contains [symmetric]
    by (simp del: matches.simps search_from.simps first_found.simps add: re_ev)
  have 3: "List.find (\<lambda>w. contains_word w ''( select 1)'') BLOCKED_WORDS = None"
    unfolding blocked_trimmed_contains [symmetric]
    by (simp del: matches.simps search_from.simps first_found.simps add: re_ev)
  have 4: "select_head (strip ''( select 1)'')"
    unfolding 0 by (simp add: select_head_def word_prefix_def ci_prefix_def char_tabs)
  have 5: "basic_sanitize_and_enforce ''( select 1)'' 5 \<noteq>
     Inl (SQLSanitizerError ''Only SELECT queries are allowed.'')"
    using C4_select_or_with [of "''( select 1)''" 5] 0 1 2 3 4
    by (simp only: find_None_ball) simp
  have a0: "strip ''SELECTED'' = ''SELECTED''"
    by (simp add: strip_def lstrip_def rstrip_def char_tabs)
  have a1: "CHR '';'' \<notin> set ''SELECTED''" by simp
  have a2: "List.find (\<lambda>w. contains_word w ''SELECTED'') SYSTEM_TABLES = None"
    unfolding system_trimmed_contains [symmetric]
    by (simp del: matches.simps search_from.simps first_found.simps add: re_ev)
  have a3: "List.find (\<lambda>w. contains_word w ''SELECTED'') BLOCKED_WORDS = None"
    unfolding blocked_trimmed_contains [symmetric]
    by (simp del: matches.simps search_from.simps first_found.simps add: re_ev)
  have a4: "\<not> select_after_openers (strip ''SELECTED'')" "\<not> with_head (strip ''SELECTED'')"
    unfolding a0
    by (simp_all add: select_after_openers_def with_head_def word_prefix_def ci_prefix_def
          char_tabs)
  have a5: "basic_sanitize_and_enforce ''SELECTED'' 5 =
     Inl (SQLSanitizerError ''Only SELECT queries are allowed.'')"
    using C4_select_or_with [of "''SELECTED''" 5] a0 a1 a2 a3 a4
    by (simp only: find_None_ball) simp
  from 0 1 2 3 4 5 a0 a1 a2 a3 a4 a5 show ?thesis by simp
qed

text \<open>C10. \<open>execute_sql\<close> sanitizes with the default \<open>max_rows\<close> of 1000, not with
  \<open>row_limit\<close>: for an input that the sanitizer accepts and that has no limit clause,
  sanitizing with \<open>row_limit\<close> would append \<open>LIMIT <row_limit>\<close>, but the statement given to
  the cursor is the trimmed input followed by \<open>LIMIT 1000\<close>, whatever \<open>row_limit\<close> is. A
  rejection is the rejection of the sanitizer at 1000. \<open>row_limit\<close> bounds only what is
  fetched: the result is the first \<open>row_limit\<close> rows of the rows of that statement.\<close>

theorem C10_execute_sql_default_limit:
  "(basic_sanitize_and_enforce sql (int row_limit) = Inr q \<and> \<not> re_search LIMIT_RE sql
      \<longrightarrow> q = strip sql @ '' LIMIT '' @ str_int (int row_limit)
        \<and> execute_sql ce sql row_limit =
            (case ce (strip sql @ '' LIMIT 1000'') [] of
               Inl msg \<Rightarrow> Inl (Exception msg)
             | Inr (description, rows) \<Rightarrow> Inr (take row_limit rows)))
   \<and> (basic_sanitize_and_enforce sql 1000 = Inl e \<longrightarrow> execute_sql ce sql row_limit = Inl e)
   \<and> (execute_sql ce sql row_limit = Inr rs
      \<longrightarrow> length rs \<le> row_limit
        \<and> (\<exists>q' description rows. basic_sanitize_and_enforce sql 1000 = Inr q'
              \<and> ce q' [] = Inr (description, rows) \<and> rs = take row_limit rows))"
proof (intro conjI impI)
  assume a: "basic_sanitize_and_enforce sql (int row_limit) = Inr q \<and> \<not> re_search LIMIT_RE sql"
  then have l: "\<not> re_search LIMIT_RE (strip sql)" by (simp add: LIMIT_RE_strip)
  from a l show "q = strip sql @ '' LIMIT '' @ str_int (int row_limit)"
    by (simp add: sanitize_Inr_iff)
  from a l have "basic_sanitize_and_enforce sql 1000 = Inr (strip sql @ '' LIMIT '' @ str_int 1000)"
    by (simp add: sanitize_Inr_iff)
  then have "basic_sanitize_and_enforce sql 1000 = Inr (strip sql @ '' LIMIT 1000'')"
    by (simp add: str_int_1000)
  then show "execute_sql ce sql row_limit =
            (case ce (strip sql @ '' LIMIT 1000'') [] of
               Inl msg \<Rightarrow> Inl (Exception msg)
             | Inr (description, rows) \<Rightarrow> Inr (take row_limit rows))"
    by (simp add: execute_sql_def fetchmany_def split: sum.splits prod.splits)
next
  assume "basic_sanitize_and_enforce sql 1000 = Inl e"
  then show "execute_sql ce sql row_limit = Inl e" by (simp add: execute_sql_def)
next
  assume r: "execute_sql ce sql row_limit = Inr rs"
  then show "length rs \<le> row_limit"
    by (auto simp: execute_sql_def fetchmany_def split: sum.splits prod.splits)
  from r show "\<exists>q' description rows. basic_sanitize_and_enforce sql 1000 = Inr q'
              \<and> ce q' [] = Inr (description, rows) \<and> rs = take row_limit rows"
    by (auto simp: execute_sql_def fetchmany_def split: sum.splits prod.splits)
qed

theorem C10_execute_sql_default_limit_witness:
  "basic_sanitize_and_enforce ''SELECT 1'' (int 2) = Inr ''SELECT 1 LIMIT 2'' \<and>
   \<not> re_search LIMIT_RE ''SELECT 1'' \<and>
   execute_sql (only_statement ''SELECT 1 LIMIT 1000'') ''SELECT 1'' 2 = Inr [[1], [2]]"
proof -
  have 1: "basic_sanitize_and_enforce ''SELECT 1'' (int 2) = Inr ''SELECT 1 LIMIT 2''"
    using sanitize_select_1_two by simp
  have 2: "\<not> re_search LIMIT_RE ''SELECT 1''"
    by (simp del: matches.simps search_from.simps add: re_search_def re_ev)
  have 3: "strip ''SELECT 1'' = ''SELECT 1''"
    by (simp add: strip_def lstrip_def rstrip_def char_tabs)
  have "execute_sql (only_statement ''SELECT 1 LIMIT 1000'') ''SELECT 1'' 2 =
        (case only_statement ''SELECT 1 LIMIT 1000'' (strip ''SELECT 1'' @ '' LIMIT 1000'') [] of
           Inl msg \<Rightarrow> Inl (Exception msg)
         | Inr (description, rows) \<Rightarrow> Inr (take 2 rows))"
    using C10_execute_sql_default_limit
      [of "''SELECT 1''" 2 "''SELECT 1 LIMIT 2''" "only_statement ''SELECT 1 LIMIT 1000''"] 1 2
    by blast
  then have "execute_sql (only_statement ''SELECT 1 LIMIT 1000'') ''SELECT 1'' 2 = Inr [[1], [2]]"
    unfolding 3 by (simp add: only_statement_def)
  with 1 2 show ?thesis by blast
qed

text \<open>C9. Two requests with the same \<open>nl_query\<close>, \<open>format\<close> and \<open>max_rows\<close>, whatever
  their \<open>schema\<close> fields, in the same environment (so with the same behaviour of the
  generator and of the database) have the same outcome: the same string given to the
  sanitizer, the same statements executed, the same response and the same writes to the
  log. \<open>nl_to_sql\<close> replaces its \<open>schema_hint\<close> argument by the schema of the models before
  it builds the prompt.\<close>

theorem C9_schema_noninterference:
  "nl_query d1 = nl_query d2 \<Longrightarrow> format d1 = format d2 \<Longrightarrow> max_rows d1 = max_rows d2 \<Longrightarrow>
   post env d1 = post env d2"
proof -
  assume a: "nl_query d1 = nl_query d2" "format d1 = format d2" "max_rows d1 = max_rows d2"
  then have "d1 = d2\<lparr>schema := schema d1\<rparr>" by (cases d1; cases d2) simp
  then have "post env d1 = post env (d2\<lparr>schema := schema d1\<rparr>)" by simp
  then show ?thesis by (simp only: post_schema_irrelevant)
qed

theorem C9_schema_noninterference_witness:
  "nl_query (demo_request (Some ''Table: t'') 5) = nl_query (demo_request None 5) \<and>
   format (demo_request (Some ''Table: t'') 5) = format (demo_request None 5) \<and>
   max_rows (demo_request (Some ''Table: t'') 5) = max_rows (demo_request None 5) \<and>
   schema (demo_request (Some ''Table: t'') 5) \<noteq> schema (demo_request None 5) \<and>
   post (demo_env ''SELECT 1'') (demo_request (Some ''Table: t'') 5) =
     post (demo_env ''SELECT 1'') (demo_request None 5)"
  using C9_schema_noninterference
    [of "demo_request (Some ''Table: t'') 5" "demo_request None 5" "demo_env ''SELECT 1''"]
  by (simp add: demo_request_def)




text \<open>C6 does not hold of the view. \<open>post\<close> takes the rows with \<open>fetchall\<close>: with
  \<open>max_rows = 1\<close> and a generated statement that carries its own \<open>LIMIT 3\<close>, which the
  sanitizer leaves as it is, all three rows of the result are fetched and returned.
  \<open>execute_sql\<close>, which fetches with \<open>fetchmany(row_limit)\<close>, returns one row for the same
  statement and a cap of 1.\<close>

theorem C6_post_fetches_every_row:
  "response (post (demo_env ''SELECT x FROM t LIMIT 3'') (demo_request None 1)) =
     Inr (Response (SqlRowsMeta ''SELECT x FROM t LIMIT 3''
                 [[(''x'', 1)], [(''x'', 2)], [(''x'', 3)]]
                 \<lparr>runtime_s = 0, row_count = 3\<rparr>) 200)
   \<and> execute_sql three_rows ''SELECT x FROM t LIMIT 3'' 1 = Inr [[1]]"
proof -
  have n: "nl_to_sql (demo_env ''SELECT x FROM t LIMIT 3'') ''q'' [] = Inr ''SELECT x FROM t LIMIT 3''"
    by (rule nl_to_sql_demo) (simp_all add: strip_def lstrip_def rstrip_def startswith_def char_tabs)
  note e = demo_env_fields
  have "response (post (demo_env ''SELECT x FROM t LIMIT 3'') (demo_request None 1)) =
     Inr (Response (SqlRowsMeta ''SELECT x FROM t LIMIT 3''
                 [[(''x'', 1)], [(''x'', 2)], [(''x'', 3)]]
                 \<lparr>runtime_s = 0, row_count = 3\<rparr>) 200)"
    by (simp add: post_def demo_request_def sanitize_limit_3 n e three_rows_def dict_def Let_def)
  moreover have "execute_sql three_rows ''SELECT x FROM t LIMIT 3'' 1 = Inr [[1]]"
    by (simp add: execute_sql_def sanitize_limit_3 three_rows_def fetchmany_def)
  ultimately show ?thesis by blast
qed

end
